(* ===== verification/Prelude.thy ===== *)
theory Prelude
  imports
    Complex_Main
    "HOL-Library.Char_ord"
    "HOL-Library.List_Lexorder"
    "HOL-Library.Product_Lexorder"
begin

text \<open>
  Shared vocabulary of the BLASTGraph model: the Python errors the pipeline can raise,
  the pandas/igraph helpers it calls (\<open>list.index\<close>, \<open>str.join\<close>, the \<open>"first"\<close>
  and \<open>"mean"\<close> attribute combiners), and generic lemmas on sorted lists, filtered
  lists and sums that the component theories share. Strings are ordered as Python orders
  them (code point by code point, a proper prefix first): \<open>Char_ord\<close> and
  \<open>List_Lexorder\<close> give \<open>string\<close> that order.
\<close>

named_theorems model_simps "evaluation rules of the model's helper definitions"

section \<open>Errors and names\<close>

text \<open>
  The exceptions the program can raise: look-ups (\<open>KeyError\<close>, \<open>IndexError\<close>), bad
  values (\<open>ValueError\<close>, which pandas' parser errors subclass), a missing file, a
  file that is not a pickle, and \<open>sys.exit\<close> with its status (argparse exits with 2 on
  a usage error and with 0 after printing the help).
\<close>

datatype py_error = KeyError | IndexError | ValueError | FileNotFoundError | UnpicklingError
  | SystemExit int

type_synonym name = string

section \<open>Library helpers called by the source\<close>

text \<open>Python's \<open>list.index\<close>: the position of the first occurrence, \<open>ValueError\<close> if absent.\<close>

fun py_index :: "'a list \<Rightarrow> 'a \<Rightarrow> py_error + nat" where
  "py_index [] x = Inl ValueError"
| "py_index (y # ys) x =
     (if y = x then Inr 0
      else (case py_index ys x of Inl err \<Rightarrow> Inl err | Inr i \<Rightarrow> Inr (Suc i)))"

text \<open>Python's \<open>sep.join(xs)\<close>.\<close>

fun join_str :: "string \<Rightarrow> string list \<Rightarrow> string" where
  "join_str sep [] = []"
| "join_str sep [x] = x"
| "join_str sep (x # y # zs) = x @ sep @ join_str sep (y # zs)"

text \<open>
  \<open>str.replace(old, new)\<close>: every non-overlapping occurrence of \<open>old\<close>, from left to
  right; an empty \<open>old\<close> matches before every character and at the end.
\<close>

function py_replace :: "string \<Rightarrow> string \<Rightarrow> string \<Rightarrow> string" where
  "py_replace old new [] = (if old = [] then new else [])"
| "py_replace old new (c # cs) =
     (if old = [] then new @ c # py_replace old new cs
      else if take (length old) (c # cs) = old then new @ py_replace old new (drop (length old) (c # cs))
      else c # py_replace old new cs)"
  by pat_completeness auto
termination
  by (relation "measure (\<lambda>(old, new, s). length s)") auto

text \<open>
  igraph's \<open>"first"\<close> attribute combiner: the value of the first merged element; a
  missing value (None/NaN) when nothing is merged.
\<close>

definition first_of :: "'a list \<Rightarrow> 'a option" where
  "first_of xs = (case xs of [] \<Rightarrow> None | x # _ \<Rightarrow> Some x)"

text \<open>igraph's \<open>"mean"\<close> combiner: the arithmetic mean, NaN (here \<open>None\<close>) on no elements.\<close>

definition mean :: "real list \<Rightarrow> real option" where
  "mean xs = (if xs = [] then None else Some (sum_list xs / real (length xs)))"

lemma first_of_simps [simp, model_simps]:
  "first_of [] = None" "first_of (x # xs) = Some x"
  by (simp_all add: first_of_def)

lemma mean_simps [simp, model_simps]:
  "mean [] = None" "mean (x # xs) = Some (sum_list (x # xs) / real (length (x # xs)))"
  by (simp_all add: mean_def)

text \<open>
  A Python \<open>for\<close> loop whose body may raise: the state is threaded through the
  elements and the first exception ends the loop.
\<close>

fun fold_err :: "('a \<Rightarrow> 's \<Rightarrow> 'e + 's) \<Rightarrow> 'a list \<Rightarrow> 's \<Rightarrow> 'e + 's" where
  "fold_err f [] s = Inr s"
| "fold_err f (x # xs) s = (case f x s of Inl err \<Rightarrow> Inl err | Inr s' \<Rightarrow> fold_err f xs s')"

text \<open>A list comprehension whose element expression may raise.\<close>

fun map_err :: "('a \<Rightarrow> 'e + 'b) \<Rightarrow> 'a list \<Rightarrow> 'e + 'b list" where
  "map_err f [] = Inr []"
| "map_err f (x # xs) =
     (case f x of Inl err \<Rightarrow> Inl err
      | Inr y \<Rightarrow> (case map_err f xs of Inl err \<Rightarrow> Inl err | Inr ys \<Rightarrow> Inr (y # ys)))"

section \<open>Generic lemmas\<close>

lemma fold_err_append:
  "fold_err f (xs @ ys) s = (case fold_err f xs s of Inl err \<Rightarrow> Inl err | Inr s' \<Rightarrow> fold_err f ys s')"
  by (induction xs arbitrary: s) (auto split: sum.splits)

text \<open>A body that does nothing on the elements a guard rejects loops over the accepted ones.\<close>

lemma fold_err_guard:
  "fold_err (\<lambda>x s. if P x then f x s else Inr s) xs s = fold_err f (filter P xs) s"
  by (induction xs arbitrary: s) (auto split: sum.splits)

text \<open>Loop invariants: an invariant kept by every step that succeeds holds at the end.\<close>

lemma fold_err_invariant:
  assumes "\<And>x s s'. x \<in> set xs \<Longrightarrow> I s \<Longrightarrow> f x s = Inr s' \<Longrightarrow> I s'"
    and "I s" and "fold_err f xs s = Inr s'"
  shows "I s'"
  using assms
proof (induction xs arbitrary: s)
  case Nil
  then show ?case by simp
next
  case (Cons x xs)
  then show ?case by (auto split: sum.splits)
qed

text \<open>A loop whose steps succeed in every state where an invariant holds succeeds.\<close>

lemma fold_err_succeeds:
  assumes "\<And>x s. x \<in> set xs \<Longrightarrow> I s \<Longrightarrow> \<exists>s'. f x s = Inr s' \<and> I s'"
    and "I s"
  shows "\<exists>s'. fold_err f xs s = Inr s' \<and> I s'"
  using assms
proof (induction xs arbitrary: s)
  case Nil
  then show ?case by simp
next
  case (Cons x xs)
  from Cons.prems obtain s1 where "f x s = Inr s1" "I s1" by force
  with Cons show ?case by simp
qed

lemma fold_err_total:
  "(\<And>x s. x \<in> set xs \<Longrightarrow> \<exists>s'. f x s = Inr s') \<Longrightarrow> \<exists>s'. fold_err f xs s = Inr s'"
proof (induction xs arbitrary: s)
  case Nil
  then show ?case by simp
next
  case (Cons x xs)
  then obtain s1 where "f x s = Inr s1" by force
  with Cons show ?case by simp
qed

text \<open>What a loop appends to one field of its state, when each step appends \<open>R x\<close>.\<close>

lemma fold_err_appends:
  assumes "\<And>x s s'. x \<in> set xs \<Longrightarrow> f x s = Inr s' \<Longrightarrow> p s' = p s @ R x"
    and "fold_err f xs s = Inr s'"
  shows "p s' = p s @ concat (map R xs)"
  using assms
proof (induction xs arbitrary: s)
  case Nil
  then show ?case by simp
next
  case (Cons x xs)
  then show ?case by (fastforce split: sum.splits)
qed

lemma fold_err_Inr_each:
  "fold_err f xs s = Inr s' \<Longrightarrow> x \<in> set xs \<Longrightarrow> \<exists>t t'. f x t = Inr t'"
  by (induction xs arbitrary: s) (auto split: sum.splits)

lemma fold_err_Inl_only:
  "(\<And>x s e. f x s = Inl e \<Longrightarrow> e = E) \<Longrightarrow> fold_err f xs s = Inl e \<Longrightarrow> e = E"
  by (induction xs arbitrary: s) (auto split: sum.splits)

lemma sorted_le_last: "sorted xs \<Longrightarrow> x \<in> set xs \<Longrightarrow> x \<le> last (xs :: nat list)"
proof (induction xs)
  case Nil
  then show ?case by simp
next
  case (Cons y ys)
  show ?case
  proof (cases "ys = []")
    case True
    with Cons.prems show ?thesis by simp
  next
    case False
    then have "last ys \<in> set ys" by simp
    with Cons False show ?thesis by auto
  qed
qed

lemma map_err_Inr:
  "map_err f xs = Inr ys \<Longrightarrow> length ys = length xs \<and> (\<forall>k<length xs. f (xs ! k) = Inr (ys ! k))"
proof (induction xs arbitrary: ys)
  case Nil
  then show ?case by simp
next
  case (Cons x xs)
  then show ?case by (auto simp: nth_Cons split: sum.splits nat.splits)
qed

lemma map_err_succeeds:
  "(\<And>x. x \<in> set xs \<Longrightarrow> \<exists>y. f x = Inr y) \<Longrightarrow> \<exists>ys. map_err f xs = Inr ys"
  by (induction xs) (force split: sum.splits)+

text \<open>Of a concatenation whose blocks are all empty but one, only that block is left.\<close>

lemma concat_map_single:
  assumes "distinct xs" and "z \<in> set xs" and "\<And>x. x \<in> set xs \<Longrightarrow> x \<noteq> z \<Longrightarrow> g x = []"
  shows "concat (map g xs) = g z"
  using assms
proof (induction xs)
  case Nil
  then show ?case by simp
next
  case (Cons x xs)
  show ?case
  proof (cases "x = z")
    case True
    with Cons.prems have "\<forall>y\<in>set xs. g y = []" by auto
    then have "concat (map g xs) = []" by simp
    with True show ?thesis by simp
  next
    case False
    with Cons show ?thesis by simp
  qed
qed

lemma sum_list_ge_bound:
  fixes xs :: "real list"
  assumes "xs \<noteq> []" and "\<forall>x\<in>set xs. c \<le> x" and "0 \<le> c"
  shows "c \<le> sum_list xs"
  using assms
proof (induction xs)
  case Nil
  then show ?case by simp
next
  case (Cons x xs)
  have "0 \<le> sum_list xs"
    using Cons.prems(2,3) by (intro sum_list_nonneg) auto
  with Cons.prems(2) show ?case by simp
qed


lemma sum_list_if_absent:
  "a \<notin> set K \<Longrightarrow> sum_list (map (\<lambda>k. if a = k then c else 0) K) = (0 :: 'b :: comm_monoid_add)"
  by (induction K) auto

lemma sum_list_if_distinct:
  "distinct K \<Longrightarrow> a \<in> set K \<Longrightarrow> sum_list (map (\<lambda>k. if a = k then c else 0) K) = (c :: 'b :: comm_monoid_add)"
  by (induction K) (auto simp: sum_list_if_absent)

lemma sum_list_group:
  fixes f :: "'a \<Rightarrow> 'b :: comm_monoid_add"
  assumes "distinct K" and "key ` set xs \<subseteq> set K"
  shows "sum_list (map (\<lambda>k. sum_list (map f (filter (\<lambda>x. key x = k) xs))) K) = sum_list (map f xs)"
  using assms(2)
proof (induction xs)
  case Nil
  then show ?case by (induction K) simp_all
next
  case (Cons x xs)
  have "sum_list (map (\<lambda>k. sum_list (map f (filter (\<lambda>y. key y = k) (x # xs)))) K) =
      sum_list (map (\<lambda>k. (if key x = k then f x else 0) + sum_list (map f (filter (\<lambda>y. key y = k) xs))) K)"
    by (rule arg_cong [where f = sum_list], rule map_cong) simp_all
  also have "\<dots> = sum_list (map (\<lambda>k. if key x = k then f x else 0) K) +
      sum_list (map (\<lambda>k. sum_list (map f (filter (\<lambda>y. key y = k) xs))) K)"
    by (simp add: sum_list_addf)
  also have "\<dots> = f x + sum_list (map f xs)"
    using Cons assms(1) by (simp add: sum_list_if_distinct)
  finally show ?case by simp
qed

lemma sum_list_map_concat:
  "sum_list (map f (concat cs)) = sum_list (map (\<lambda>c. sum_list (map f c)) cs)"
  by (induction cs) simp_all

lemma sum_list_perm_distinct:
  fixes f :: "'a \<Rightarrow> 'b :: comm_monoid_add"
  shows "distinct xs \<Longrightarrow> distinct ys \<Longrightarrow> set xs = set ys \<Longrightarrow> sum_list (map f xs) = sum_list (map f ys)"
  by (simp add: sum_list_distinct_conv_sum_set)

lemma sorted_filter_inter_comm:
  assumes "sorted_wrt (<) (a :: 'a :: linorder list)" and "sorted_wrt (<) b"
  shows "filter (\<lambda>x. x \<in> set b) a = filter (\<lambda>x. x \<in> set a) b"
proof (rule sorted_distinct_set_unique)
  show "sorted (filter (\<lambda>x. x \<in> set b) a)" "distinct (filter (\<lambda>x. x \<in> set b) a)"
    using assms(1) by (auto simp: strict_sorted_iff intro: sorted_wrt_filter)
  show "sorted (filter (\<lambda>x. x \<in> set a) b)" "distinct (filter (\<lambda>x. x \<in> set a) b)"
    using assms(2) by (auto simp: strict_sorted_iff intro: sorted_wrt_filter)
qed auto

lemma py_index_Inr:
  "py_index xs x = Inr i \<Longrightarrow> i < length xs \<and> xs ! i = x"
proof (induction xs arbitrary: i)
  case Nil
  then show ?case by simp
next
  case (Cons y ys)
  then show ?case by (auto split: if_splits sum.splits)
qed

lemma py_index_in_set:
  "x \<in> set xs \<Longrightarrow> \<exists>i. py_index xs x = Inr i"
  by (induction xs) (auto split: sum.splits)

lemma py_index_distinct_nth:
  "distinct xs \<Longrightarrow> i < length xs \<Longrightarrow> py_index xs (xs ! i) = Inr i"
proof (induction xs arbitrary: i)
  case Nil
  then show ?case by simp
next
  case (Cons y ys)
  show ?case
  proof (cases i)
    case 0
    then show ?thesis by simp
  next
    case (Suc j)
    with Cons.prems have "ys ! j \<noteq> y" and "j < length ys"
      by auto
    with Cons.IH Cons.prems Suc show ?thesis by auto
  qed
qed

lemma sorted_wrt_map_filter:
  assumes "sorted_wrt R (map h xs)"
    and "\<And>x y. f x = Some y \<Longrightarrow> g y = h x"
  shows "sorted_wrt R (map g (List.map_filter f xs))"
  using assms(1)
proof (induction xs)
  case Nil
  then show ?case by simp
next
  case (Cons x xs)
  have sub: "\<And>z. z \<in> set (List.map_filter f xs) \<Longrightarrow> \<exists>x'\<in>set xs. g z = h x'"
    by (auto simp: List.map_filter_def assms(2))
  from Cons show ?case
    by (auto split: option.splits dest!: sub assms(2))
qed

lemma set_map_filter_iff:
  "y \<in> set (List.map_filter f xs) \<longleftrightarrow> (\<exists>x\<in>set xs. f x = Some y)"
  by (induction xs) (auto split: option.splits)

lemma sorted_less_distinct:
  "sorted_wrt (<) (xs :: 'a :: linorder list) \<longleftrightarrow> sorted xs \<and> distinct xs"
  by (simp add: strict_sorted_iff)

lemma sorted_less_sort_remdups [simp]:
  "sorted_wrt (<) (sort (remdups (xs :: 'a :: linorder list)))"
  by (simp add: sorted_less_distinct)

end
