(* ===== verification/HitFilter.thy ===== *)
theory HitFilter
  imports Prelude
begin

text \<open>
  HitFilter: the first lines of \<open>_blast_to_graph\<close> (src/src/blast_to_graph.py, lines
  25--35). The BLAST table is read (at most 500 rows), collapsed to the best bitscore per
  (node, edge) key, each key's score divided by the top score of its \<open>qacc\<close> group, and
  rows under 90\<percent> dropped. The key columns are chosen by the caller (\<open>node_col\<close>,
  \<open>edge_col\<close>); the top-score grouping is hard-coded to the column named \<open>qacc\<close>.
\<close>

section \<open>Data\<close>

text \<open>
  One data row of the tab-separated BLAST output (\<open>qacc sacc bitscore evalue sscinames\<close>,
  the header written by blastgraph.py). pandas' \<open>read_csv\<close> turns the NA strings
  (\<open>N/A\<close>, \<open>NA\<close>, empty, ...) into missing values: a key column is a
  \<open>string option\<close>, \<open>None\<close> the missing value.
\<close>

record blast_row =
  qacc :: "string option"
  sacc :: "string option"
  bitscore :: real
  evalue :: real
  sscinames :: "string option"

definition nrows_cap :: nat where
  "nrows_cap = 500"

definition perc_threshold :: real where
  "perc_threshold = 0.9"

text \<open>\<open>pd.read_csv(file, sep="\t", nrows=500)\<close>.\<close>

definition read_rows :: "blast_row list \<Rightarrow> blast_row list" where
  "read_rows rows = take nrows_cap rows"

text \<open>
  Looking a key column up by name; an unknown column raises \<open>KeyError\<close>. Only the
  three string columns are modelled as keys: grouping by the numeric columns
  \<open>bitscore\<close> or \<open>evalue\<close>, which pandas allows, is outside the model (no caller uses it).
\<close>

definition key_column :: "string \<Rightarrow> py_error + (blast_row \<Rightarrow> string option)" where
  "key_column c =
     (if c = ''qacc'' then Inr qacc
      else if c = ''sacc'' then Inr sacc
      else if c = ''sscinames'' then Inr sscinames
      else Inl KeyError)"

text \<open>
  \<open>blast.groupby("qacc")\<close> after the first aggregation: the index has the two levels
  \<open>node_col\<close> and \<open>edge_col\<close>, and \<open>"qacc"\<close> names one of them, or neither
  (\<open>KeyError\<close>).
\<close>

datatype level = Node_level | Edge_level

definition qacc_level :: "string \<Rightarrow> string \<Rightarrow> py_error + level" where
  "qacc_level node_col edge_col =
     (if node_col = ''qacc'' then Inr Node_level
      else if edge_col = ''qacc'' then Inr Edge_level
      else Inl KeyError)"

type_synonym hit_key = "string \<times> string"

fun level_key :: "level \<Rightarrow> hit_key \<Rightarrow> string" where
  "level_key Node_level k = fst k"
| "level_key Edge_level k = snd k"

section \<open>Operations\<close>

text \<open>
  \<open>groupby([node_col, edge_col])\<close> drops the rows with a missing key (pandas'
  default \<open>dropna=True\<close>); the rest become (key, bitscore) pairs in file order.
\<close>

definition keyed_scores ::
  "(blast_row \<Rightarrow> string option) \<Rightarrow> (blast_row \<Rightarrow> string option) \<Rightarrow> blast_row list
   \<Rightarrow> (hit_key \<times> real) list" where
  "keyed_scores fn fe rows =
     List.map_filter
       (\<lambda>r. case (fn r, fe r) of (Some n, Some e) \<Rightarrow> Some ((n, e), bitscore r) | _ \<Rightarrow> None) rows"

definition scores_of :: "'k \<Rightarrow> ('k \<times> real) list \<Rightarrow> real list" where
  "scores_of k kv = map snd (filter (\<lambda>p. fst p = k) kv)"

text \<open>\<open>.agg({"bitscore": "max"})\<close>: one row per key, keys sorted (\<open>sort=True\<close>).\<close>

definition best_hits :: "(hit_key \<times> real) list \<Rightarrow> (hit_key \<times> real) list" where
  "best_hits kv = map (\<lambda>k. (k, Max (set (scores_of k kv)))) (sort (remdups (map fst kv)))"

text \<open>\<open>groupby("qacc")["bitscore"].transform("max")\<close>.\<close>

definition top_bitscore :: "level \<Rightarrow> (hit_key \<times> real) list \<Rightarrow> hit_key \<Rightarrow> real" where
  "top_bitscore lvl tbl k =
     Max (set (map snd (filter (\<lambda>p. level_key lvl (fst p) = level_key lvl k) tbl)))"

text \<open>
  The float division \<open>bitscore / top_bitscore\<close>: with a zero divisor pandas yields NaN
  or an infinity (here \<open>None\<close>); the dividend is then at most 0, so the value is NaN or
  \<open>-inf\<close>, and either compares false with 0.9.
\<close>

definition py_ratio :: "real \<Rightarrow> real \<Rightarrow> real option" where
  "py_ratio s t = (if t = 0 then None else Some (s / t))"

text \<open>A row of the filtered frame: its index (node, edge) and its three columns.\<close>

record hit =
  hit_node :: string
  hit_edge :: string
  hit_bitscore :: real
  hit_top :: real
  hit_perc :: real

definition hit_key :: "hit \<Rightarrow> hit_key" where
  "hit_key h = (hit_node h, hit_edge h)"

text \<open>The columns \<open>top_bitscore\<close> and \<open>bitscore_perc\<close> added to every row.\<close>

definition annotate ::
  "level \<Rightarrow> (hit_key \<times> real) list \<Rightarrow> (hit_key \<times> real \<times> real \<times> real option) list" where
  "annotate lvl tbl =
     map (\<lambda>(k, s). let t = top_bitscore lvl tbl k in (k, s, t, py_ratio s t)) tbl"

text \<open>\<open>blast[blast["bitscore_perc"] >= 0.9]\<close>, row by row.\<close>

definition keep_row :: "hit_key \<times> real \<times> real \<times> real option \<Rightarrow> hit option" where
  "keep_row = (\<lambda>((n, e), s, t, p).
     case p of
       None \<Rightarrow> None
     | Some r \<Rightarrow>
         if perc_threshold \<le> r
         then Some \<lparr>hit_node = n, hit_edge = e, hit_bitscore = s, hit_top = t, hit_perc = r\<rparr>
         else None)"

definition select_hits :: "level \<Rightarrow> (hit_key \<times> real) list \<Rightarrow> hit list" where
  "select_hits lvl tbl = List.map_filter keep_row (annotate lvl tbl)"

text \<open>Lines 25--35 composed, with the column look-ups that may raise.\<close>

definition hit_filter :: "string \<Rightarrow> string \<Rightarrow> blast_row list \<Rightarrow> py_error + hit list" where
  "hit_filter node_col edge_col rows =
     (case key_column node_col of
        Inl err \<Rightarrow> Inl err
      | Inr fn \<Rightarrow>
          (case key_column edge_col of
             Inl err \<Rightarrow> Inl err
           | Inr fe \<Rightarrow>
               (case qacc_level node_col edge_col of
                  Inl err \<Rightarrow> Inl err
                | Inr lvl \<Rightarrow> Inr (select_hits lvl (best_hits (keyed_scores fn fe (read_rows rows)))))))"

section \<open>Lemmas\<close>

lemmas hit_filter_eval = hit_filter_def key_column_def qacc_level_def read_rows_def nrows_cap_def
  keyed_scores_def best_hits_def scores_of_def select_hits_def annotate_def top_bitscore_def
  py_ratio_def keep_row_def perc_threshold_def

lemma set_scores_of [simp]:
  "set (scores_of k kv) = {s. (k, s) \<in> set kv}"
  by (auto simp: scores_of_def image_iff)

lemma best_hits_keys [simp]:
  "map fst (best_hits kv) = sort (remdups (map fst kv))"
  by (simp add: best_hits_def comp_def)

lemma best_hits_member:
  "(k, s) \<in> set (best_hits kv) \<longleftrightarrow> k \<in> fst ` set kv \<and> s = Max {s. (k, s) \<in> set kv}"
  by (auto simp: best_hits_def)

lemma best_hits_ge:
  assumes "(k, s) \<in> set (kv :: ('k \<times> real) list)"
  shows "s \<le> Max {s. (k, s) \<in> set kv}"
proof -
  have "{s. (k, s) \<in> set kv} = set (scores_of k kv)"
    by simp
  then have "finite {s. (k, s) \<in> set kv}"
    by (metis finite_set)
  with assms show ?thesis by (simp add: Max_ge)
qed

lemma set_level_scores:
  "set (map snd (filter (\<lambda>p. level_key lvl (fst p) = c) tbl)) =
     {s. \<exists>k'. (k', s) \<in> set tbl \<and> level_key lvl k' = c}"
  by (auto simp: image_iff) blast+

lemma top_bitscore_ge:
  assumes "(k, s) \<in> set tbl"
  shows "s \<le> top_bitscore lvl tbl k"
proof -
  let ?L = "map snd (filter (\<lambda>p. level_key lvl (fst p) = level_key lvl k) tbl)"
  from assms have "s \<in> set ?L"
    by (simp only: set_level_scores) blast
  then show ?thesis
    unfolding top_bitscore_def by (rule Max_ge [OF finite_set])
qed

lemma top_bitscore_in:
  assumes "(k, s) \<in> set tbl"
  shows "\<exists>k' s'. (k', s') \<in> set tbl \<and> level_key lvl k' = level_key lvl k \<and> top_bitscore lvl tbl k = s'"
proof -
  let ?L = "map snd (filter (\<lambda>p. level_key lvl (fst p) = level_key lvl k) tbl)"
  from assms have "set ?L \<noteq> {}"
    by (simp only: set_level_scores) blast
  then have "Max (set ?L) \<in> set ?L" by (rule Max_in [OF finite_set])
  then show ?thesis
    unfolding top_bitscore_def by (simp only: set_level_scores) blast
qed

lemma keep_row_Some:
  "keep_row ((n, e), s, t, p) = Some h \<longleftrightarrow>
     (\<exists>r. p = Some r \<and> perc_threshold \<le> r \<and>
        h = \<lparr>hit_node = n, hit_edge = e, hit_bitscore = s, hit_top = t, hit_perc = r\<rparr>)"
  by (auto simp: keep_row_def split: option.splits)

lemma select_hits_member:
  "h \<in> set (select_hits lvl tbl) \<longleftrightarrow>
     (\<exists>n e s. ((n, e), s) \<in> set tbl \<and> top_bitscore lvl tbl (n, e) \<noteq> 0 \<and>
        perc_threshold \<le> s / top_bitscore lvl tbl (n, e) \<and>
        h = \<lparr>hit_node = n, hit_edge = e, hit_bitscore = s, hit_top = top_bitscore lvl tbl (n, e),
             hit_perc = s / top_bitscore lvl tbl (n, e)\<rparr>)"
proof -
  have "h \<in> set (select_hits lvl tbl) \<longleftrightarrow>
     (\<exists>n e s. ((n, e), s) \<in> set tbl \<and>
        keep_row ((n, e), s, top_bitscore lvl tbl (n, e), py_ratio s (top_bitscore lvl tbl (n, e))) = Some h)"
    by (force simp: select_hits_def set_map_filter_iff annotate_def Let_def)
  then show ?thesis
    by (auto simp: keep_row_Some py_ratio_def)
qed

lemma select_hits_sorted_keys:
  assumes "sorted_wrt (<) (map fst tbl)"
  shows "sorted_wrt (<) (map hit_key (select_hits lvl tbl))"
proof -
  have "sorted_wrt (<) (map (fst :: _ \<times> real \<times> real \<times> real option \<Rightarrow> _) (annotate lvl tbl))"
    using assms by (simp add: annotate_def comp_def case_prod_beta Let_def)
  then show ?thesis
    unfolding select_hits_def
    by (rule sorted_wrt_map_filter)
       (auto simp: keep_row_def hit_key_def split: prod.splits option.splits if_splits)
qed

lemma hit_filter_Inr:
  "hit_filter nc ec rows = Inr hs \<Longrightarrow>
   \<exists>fn fe lvl. key_column nc = Inr fn \<and> key_column ec = Inr fe \<and> qacc_level nc ec = Inr lvl \<and>
     hs = select_hits lvl (best_hits (keyed_scores fn fe (read_rows rows)))"
  by (auto simp: hit_filter_def split: sum.splits)

lemma keyed_scores_member:
  "(k, s) \<in> set (keyed_scores fn fe rows) \<longleftrightarrow>
     (\<exists>r\<in>set rows. fn r = Some (fst k) \<and> fe r = Some (snd k) \<and> bitscore r = s)"
  by (cases k) (auto simp: keyed_scores_def set_map_filter_iff split: option.splits)

lemma read_rows_subset: "set (read_rows rows) \<subseteq> set rows"
  by (simp add: read_rows_def set_take_subset)

lemma best_hits_in:
  assumes "(k, s) \<in> set (best_hits kv)"
  shows "(k, s) \<in> set kv"
proof -
  from assms have k: "k \<in> fst ` set kv" and s: "s = Max (set (scores_of k kv))"
    by (auto simp: best_hits_def)
  from k obtain s0 where "(k, s0) \<in> set kv" by force
  then have "set (scores_of k kv) \<noteq> {}" by auto
  then have "Max (set (scores_of k kv)) \<in> set (scores_of k kv)" by (rule Max_in [OF finite_set])
  with s show ?thesis by simp
qed

lemma best_hits_sorted: "sorted_wrt (<) (map fst (best_hits kv))"
  by simp

text \<open>Everything the selection step knows about one surviving row.\<close>

lemma select_best_facts:
  assumes "h \<in> set (select_hits lvl (best_hits kv))"
  shows "hit_top h \<noteq> 0 \<and> hit_perc h = hit_bitscore h / hit_top h \<and> perc_threshold \<le> hit_perc h
    \<and> hit_bitscore h \<le> hit_top h \<and> (hit_key h, hit_bitscore h) \<in> set kv
    \<and> (\<exists>k'. level_key lvl k' = level_key lvl (hit_key h) \<and> (k', hit_top h) \<in> set kv)
    \<and> hit_top h = top_bitscore lvl (best_hits kv) (hit_key h)"
proof -
  from assms obtain n e s where
    mem: "((n, e), s) \<in> set (best_hits kv)" and
    nz: "top_bitscore lvl (best_hits kv) (n, e) \<noteq> 0" and
    ge: "perc_threshold \<le> s / top_bitscore lvl (best_hits kv) (n, e)" and
    h: "h = \<lparr>hit_node = n, hit_edge = e, hit_bitscore = s, hit_top = top_bitscore lvl (best_hits kv) (n, e),
             hit_perc = s / top_bitscore lvl (best_hits kv) (n, e)\<rparr>"
    unfolding select_hits_member by blast
  from top_bitscore_in [OF mem, of lvl] obtain k' s' where
    "(k', s') \<in> set (best_hits kv)" "level_key lvl k' = level_key lvl (n, e)"
    "top_bitscore lvl (best_hits kv) (n, e) = s'"
    by blast
  then have top: "\<exists>k'. level_key lvl k' = level_key lvl (n, e) \<and> (k', top_bitscore lvl (best_hits kv) (n, e)) \<in> set kv"
    using best_hits_in by blast
  show ?thesis
    using h nz ge top best_hits_in [OF mem] top_bitscore_ge [OF mem, of lvl]
    by (simp add: hit_key_def)
qed

lemma hit_filter_facts:
  assumes "hit_filter nc ec rows = Inr hs" and "h \<in> set hs"
  shows "hit_top h \<noteq> 0 \<and> hit_perc h = hit_bitscore h / hit_top h \<and> perc_threshold \<le> hit_perc h
    \<and> hit_bitscore h \<le> hit_top h \<and> (\<exists>r\<in>set rows. bitscore r = hit_bitscore h)
    \<and> (\<exists>r\<in>set rows. bitscore r = hit_top h)"
proof -
  from hit_filter_Inr [OF assms(1)] obtain fn fe lvl where
    hs: "hs = select_hits lvl (best_hits (keyed_scores fn fe (read_rows rows)))"
    by blast
  from assms(2) hs have f: "hit_top h \<noteq> 0 \<and> hit_perc h = hit_bitscore h / hit_top h
    \<and> perc_threshold \<le> hit_perc h \<and> hit_bitscore h \<le> hit_top h
    \<and> (hit_key h, hit_bitscore h) \<in> set (keyed_scores fn fe (read_rows rows))
    \<and> (\<exists>k'. (k', hit_top h) \<in> set (keyed_scores fn fe (read_rows rows)))"
    using select_best_facts by blast
  then show ?thesis
    using read_rows_subset by (auto simp: keyed_scores_member)
qed

lemma top_bitscore_level_cong:
  "level_key lvl k = level_key lvl k' \<Longrightarrow> top_bitscore lvl tbl k = top_bitscore lvl tbl k'"
  by (simp add: top_bitscore_def)

text \<open>A row read in bounds its key group's top score.\<close>

lemma row_le_top:
  assumes "r \<in> set (read_rows rows)" "fn r = Some n" "fe r = Some e"
    and "level_key lvl (n, e) = level_key lvl k"
  shows "bitscore r \<le> top_bitscore lvl (best_hits (keyed_scores fn fe (read_rows rows))) k"
proof -
  let ?kv = "keyed_scores fn fe (read_rows rows)"
  from assms(1-3) have kv: "((n, e), bitscore r) \<in> set ?kv"
    by (auto simp: keyed_scores_member)
  then have best: "((n, e), Max {s. ((n, e), s) \<in> set ?kv}) \<in> set (best_hits ?kv)"
    by (force simp: best_hits_member)
  from kv have "bitscore r \<le> Max {s. ((n, e), s) \<in> set ?kv}"
    by (rule best_hits_ge)
  also have "\<dots> \<le> top_bitscore lvl (best_hits ?kv) (n, e)"
    by (rule top_bitscore_ge [OF best])
  also have "\<dots> = top_bitscore lvl (best_hits ?kv) k"
    by (rule top_bitscore_level_cong [OF assms(4)])
  finally show ?thesis .
qed

lemma best_hits_max_in:
  "(k, s) \<in> set kv \<Longrightarrow> (k, Max {s. (k, s) \<in> set kv}) \<in> set (best_hits kv)"
  by (force simp: best_hits_member)

lemma top_bitscore_best:
  assumes "(k, s) \<in> set kv"
  shows "top_bitscore lvl (best_hits kv) k =
           Max {s. \<exists>k'. (k', s) \<in> set kv \<and> level_key lvl k' = level_key lvl k}"
    (is "_ = Max ?S")
proof (rule antisym)
  have fin: "finite ?S"
    by (rule finite_subset [of _ "snd ` set kv"]) force+
  from top_bitscore_in [OF best_hits_max_in [OF assms], of lvl] obtain k' s' where
    "(k', s') \<in> set (best_hits kv)" "level_key lvl k' = level_key lvl k"
    "top_bitscore lvl (best_hits kv) k = s'"
    by blast
  then have "s' \<in> ?S" "top_bitscore lvl (best_hits kv) k = s'"
    using best_hits_in by blast+
  then show "top_bitscore lvl (best_hits kv) k \<le> Max ?S"
    using Max_ge [OF fin] by simp
  from assms have "?S \<noteq> {}" by blast
  from Max_in [OF fin this] obtain k'' where
    k'': "(k'', Max ?S) \<in> set kv" "level_key lvl k'' = level_key lvl k"
    by blast
  have "Max ?S \<le> Max {s. (k'', s) \<in> set kv}"
    by (rule best_hits_ge [OF k''(1)])
  also have "\<dots> \<le> top_bitscore lvl (best_hits kv) k''"
    by (rule top_bitscore_ge [OF best_hits_max_in [OF k''(1)]])
  also have "\<dots> = top_bitscore lvl (best_hits kv) k"
    by (rule top_bitscore_level_cong [OF k''(2)])
  finally show "Max ?S \<le> top_bitscore lvl (best_hits kv) k" .
qed

section \<open>Properties\<close>

text \<open>
  C7. The filtered frame has at most one row per (node, edge) key, and its rows are in
  increasing key order (pandas sorts the group keys).
\<close>

theorem hit_filter_keys_sorted:
  assumes "hit_filter nc ec rows = Inr hs"
  shows "sorted_wrt (<) (map hit_key hs)"
proof -
  from hit_filter_Inr [OF assms] obtain fn fe lvl where
    "hs = select_hits lvl (best_hits (keyed_scores fn fe (read_rows rows)))"
    by blast
  then show ?thesis
    using select_hits_sorted_keys [OF best_hits_sorted] by simp
qed

theorem hit_filter_keys_sorted_witness:
  "hit_filter ''qacc'' ''sacc''
     [\<lparr>qacc = Some ''q'', sacc = Some ''b'', bitscore = 100, evalue = 0, sscinames = None\<rparr>,
      \<lparr>qacc = Some ''q'', sacc = Some ''a'', bitscore = 95, evalue = 0, sscinames = None\<rparr>,
      \<lparr>qacc = Some ''q'', sacc = Some ''b'', bitscore = 70, evalue = 0, sscinames = None\<rparr>]
   = Inr [\<lparr>hit_node = ''q'', hit_edge = ''a'', hit_bitscore = 95, hit_top = 100, hit_perc = 0.95\<rparr>,
          \<lparr>hit_node = ''q'', hit_edge = ''b'', hit_bitscore = 100, hit_top = 100, hit_perc = 1\<rparr>]
   \<and> sorted_wrt (<) [(''q'', ''a''), (''q'', ''b'')]"
proof -
  have run: "hit_filter ''qacc'' ''sacc''
     [\<lparr>qacc = Some ''q'', sacc = Some ''b'', bitscore = 100, evalue = 0, sscinames = None\<rparr>,
      \<lparr>qacc = Some ''q'', sacc = Some ''a'', bitscore = 95, evalue = 0, sscinames = None\<rparr>,
      \<lparr>qacc = Some ''q'', sacc = Some ''b'', bitscore = 70, evalue = 0, sscinames = None\<rparr>]
   = Inr [\<lparr>hit_node = ''q'', hit_edge = ''a'', hit_bitscore = 95, hit_top = 100, hit_perc = 0.95\<rparr>,
          \<lparr>hit_node = ''q'', hit_edge = ''b'', hit_bitscore = 100, hit_top = 100, hit_perc = 1::real\<rparr>]"
    by (simp add: hit_filter_eval)
  from hit_filter_keys_sorted [OF run] run show ?thesis
    by (simp add: hit_key_def)
qed

text \<open>
  C8. With positive bitscores (what BLAST reports), every surviving relative score lies
  in [0.9, 1].
\<close>

theorem hit_filter_perc_bounds:
  assumes "hit_filter nc ec rows = Inr hs"
    and "\<forall>r\<in>set rows. 0 < bitscore r"
    and "h \<in> set hs"
  shows "perc_threshold \<le> hit_perc h \<and> hit_perc h \<le> 1"
proof -
  from hit_filter_facts [OF assms(1,3)] assms(2)
  have "0 < hit_bitscore h" "hit_bitscore h \<le> hit_top h"
    and perc: "hit_perc h = hit_bitscore h / hit_top h" "perc_threshold \<le> hit_perc h"
    by auto
  then have "hit_bitscore h / hit_top h \<le> 1" by simp
  with perc show ?thesis by simp
qed

theorem hit_filter_perc_bounds_witness:
  "hit_filter ''qacc'' ''sacc''
     [\<lparr>qacc = Some ''q'', sacc = Some ''a'', bitscore = 100, evalue = 0, sscinames = None\<rparr>,
      \<lparr>qacc = Some ''q'', sacc = Some ''b'', bitscore = 95, evalue = 0, sscinames = None\<rparr>]
   = Inr [\<lparr>hit_node = ''q'', hit_edge = ''a'', hit_bitscore = 100, hit_top = 100, hit_perc = 1\<rparr>,
          \<lparr>hit_node = ''q'', hit_edge = ''b'', hit_bitscore = 95, hit_top = 100, hit_perc = 0.95\<rparr>]
   \<and> perc_threshold \<le> 0.95 \<and> (0.95::real) \<le> 1"
proof -
  let ?rows = "[\<lparr>qacc = Some ''q'', sacc = Some ''a'', bitscore = 100, evalue = 0, sscinames = None\<rparr>,
      \<lparr>qacc = Some ''q'', sacc = Some ''b'', bitscore = 95, evalue = 0, sscinames = None\<rparr>]"
  let ?h = "\<lparr>hit_node = ''q'', hit_edge = ''b'', hit_bitscore = 95, hit_top = 100, hit_perc = 0.95::real\<rparr>"
  have run: "hit_filter ''qacc'' ''sacc'' ?rows
     = Inr [\<lparr>hit_node = ''q'', hit_edge = ''a'', hit_bitscore = 100, hit_top = 100, hit_perc = 1\<rparr>, ?h]"
    by (simp add: hit_filter_eval)
  have "perc_threshold \<le> hit_perc ?h \<and> hit_perc ?h \<le> 1"
    by (rule hit_filter_perc_bounds [OF run]) auto
  with run show ?thesis by simp
qed

text \<open>
  C9. A row of the same \<open>qacc\<close> group scoring more than the kept hit by a factor
  above 1/0.9 excludes it: every surviving hit scores at least 90\<percent> of every row
  read in its group (with positive bitscores). Spec scenario D.
\<close>

theorem hit_filter_drops_dominated:
  assumes "key_column nc = Inr fn" and "key_column ec = Inr fe" and "qacc_level nc ec = Inr lvl"
    and "hit_filter nc ec rows = Inr hs" and "\<forall>r\<in>set rows. 0 < bitscore r"
    and "h \<in> set hs" and "r \<in> set (read_rows rows)" and "fn r = Some n" and "fe r = Some e"
    and "level_key lvl (n, e) = level_key lvl (hit_key h)"
  shows "perc_threshold * bitscore r \<le> hit_bitscore h"
proof -
  let ?kv = "keyed_scores fn fe (read_rows rows)"
  from assms(1-4) have hs: "hs = select_hits lvl (best_hits ?kv)"
    by (simp add: hit_filter_def)
  with assms(6) have f: "hit_perc h = hit_bitscore h / hit_top h" "perc_threshold \<le> hit_perc h"
    and top: "hit_top h = top_bitscore lvl (best_hits ?kv) (hit_key h)"
    using select_best_facts by blast+
  from hit_filter_facts [OF assms(4,6)] assms(5)
  have pos: "0 < hit_top h" by force
  from f pos have le: "perc_threshold * hit_top h \<le> hit_bitscore h"
    by (simp add: pos_le_divide_eq)
  have "bitscore r \<le> hit_top h"
    unfolding top by (rule row_le_top [where fn = fn and fe = fe, OF assms(7-10)])
  then have "perc_threshold * bitscore r \<le> perc_threshold * hit_top h"
    by (simp add: perc_threshold_def)
  with le show ?thesis by linarith
qed

theorem hit_filter_drops_dominated_witness:
  "perc_threshold * bitscore \<lparr>qacc = Some ''q'', sacc = Some ''a'', bitscore = 100, evalue = 0, sscinames = None\<rparr>
     \<le> (95::real)"
proof -
  let ?ra = "\<lparr>qacc = Some ''q'', sacc = Some ''a'', bitscore = 100::real, evalue = 0, sscinames = None\<rparr>"
  let ?rows = "[?ra, \<lparr>qacc = Some ''q'', sacc = Some ''b'', bitscore = 95, evalue = 0, sscinames = None\<rparr>]"
  let ?h = "\<lparr>hit_node = ''q'', hit_edge = ''b'', hit_bitscore = 95, hit_top = 100, hit_perc = 0.95::real\<rparr>"
  have run: "hit_filter ''qacc'' ''sacc'' ?rows
     = Inr [\<lparr>hit_node = ''q'', hit_edge = ''a'', hit_bitscore = 100, hit_top = 100, hit_perc = 1\<rparr>, ?h]"
    by (simp add: hit_filter_eval)
  have "perc_threshold * bitscore ?ra \<le> hit_bitscore ?h"
    by (rule hit_filter_drops_dominated [OF _ _ _ run, of qacc sacc Node_level])
       (simp_all add: key_column_def qacc_level_def read_rows_def nrows_cap_def hit_key_def)
  then show ?thesis by simp
qed

text \<open>
  C10. The top-score grouping names the column \<open>qacc\<close>: when neither key column is
  \<open>qacc\<close> the filter raises \<open>KeyError\<close>, whatever the rows.
\<close>

theorem hit_filter_requires_qacc:
  assumes "nc \<noteq> ''qacc''" and "ec \<noteq> ''qacc''"
  shows "hit_filter nc ec rows = Inl KeyError"
  using assms by (simp add: hit_filter_def key_column_def qacc_level_def split: sum.splits)

theorem hit_filter_requires_qacc_witness:
  "hit_filter ''sscinames'' ''sacc'' [] = Inl KeyError"
  by (rule hit_filter_requires_qacc) simp_all

text \<open>
  C24. The spec drops the hits of a query whose top score is not positive; the code keeps
  them: when every row read in a key's \<open>qacc\<close> group has a negative bitscore, the key
  survives the filter, with a relative score of at least 1.
\<close>

theorem hit_filter_negative_scores_kept:
  assumes "key_column nc = Inr fn" and "key_column ec = Inr fe" and "qacc_level nc ec = Inr lvl"
    and "hit_filter nc ec rows = Inr hs"
    and "r \<in> set (read_rows rows)" and "fn r = Some n" and "fe r = Some e"
    and "\<forall>r'\<in>set (read_rows rows). \<forall>n' e'. fn r' = Some n' \<longrightarrow> fe r' = Some e' \<longrightarrow>
           level_key lvl (n', e') = level_key lvl (n, e) \<longrightarrow> bitscore r' < 0"
  shows "\<exists>h\<in>set hs. hit_key h = (n, e) \<and> 1 \<le> hit_perc h"
proof -
  let ?kv = "keyed_scores fn fe (read_rows rows)"
  let ?B = "best_hits ?kv"
  let ?t = "top_bitscore lvl ?B (n, e)"
  let ?m = "Max {s. ((n, e), s) \<in> set ?kv}"
  from assms(1-4) have hs: "hs = select_hits lvl ?B" by (simp add: hit_filter_def)
  from assms(5-7) have kv: "((n, e), bitscore r) \<in> set ?kv" by (auto simp: keyed_scores_member)
  have mem: "((n, e), ?m) \<in> set ?B" by (rule best_hits_max_in [OF kv])
  from top_bitscore_in [OF mem, of lvl] obtain k' s' where
    "(k', s') \<in> set ?B" "level_key lvl k' = level_key lvl (n, e)" "?t = s'"
    by blast
  then have "(k', s') \<in> set ?kv" "level_key lvl k' = level_key lvl (n, e)" "?t = s'"
    using best_hits_in by blast+
  then have neg: "?t < 0"
    using assms(8) by (cases k') (auto simp: keyed_scores_member)
  have le: "?m \<le> ?t" by (rule top_bitscore_ge [OF mem])
  with neg have one: "1 \<le> ?m / ?t" by (simp add: le_divide_eq)
  then have "perc_threshold \<le> ?m / ?t" unfolding perc_threshold_def by linarith
  with mem neg have "\<lparr>hit_node = n, hit_edge = e, hit_bitscore = ?m, hit_top = ?t, hit_perc = ?m / ?t\<rparr>
                      \<in> set (select_hits lvl ?B)"
    unfolding select_hits_member by force
  with hs one show ?thesis by (force simp: hit_key_def)
qed

theorem hit_filter_negative_scores_kept_witness:
  "hit_filter ''qacc'' ''sacc''
     [\<lparr>qacc = Some ''q'', sacc = Some ''a'', bitscore = -1, evalue = 0, sscinames = None\<rparr>,
      \<lparr>qacc = Some ''q'', sacc = Some ''b'', bitscore = -2, evalue = 0, sscinames = None\<rparr>]
   = Inr [\<lparr>hit_node = ''q'', hit_edge = ''a'', hit_bitscore = -1, hit_top = -1, hit_perc = 1\<rparr>,
          \<lparr>hit_node = ''q'', hit_edge = ''b'', hit_bitscore = -2, hit_top = -1, hit_perc = 2\<rparr>]
   \<and> (\<exists>h\<in>set [\<lparr>hit_node = ''q'', hit_edge = ''a'', hit_bitscore = -1, hit_top = -1, hit_perc = 1\<rparr>,
          \<lparr>hit_node = ''q'', hit_edge = ''b'', hit_bitscore = -2, hit_top = -1, hit_perc = 2::real\<rparr>].
        hit_key h = (''q'', ''b'') \<and> 1 \<le> hit_perc h)"
proof -
  let ?rb = "\<lparr>qacc = Some ''q'', sacc = Some ''b'', bitscore = -2::real, evalue = 0, sscinames = None\<rparr>"
  let ?rows = "[\<lparr>qacc = Some ''q'', sacc = Some ''a'', bitscore = -1, evalue = 0, sscinames = None\<rparr>, ?rb]"
  let ?hs = "[\<lparr>hit_node = ''q'', hit_edge = ''a'', hit_bitscore = -1, hit_top = -1, hit_perc = 1\<rparr>,
          \<lparr>hit_node = ''q'', hit_edge = ''b'', hit_bitscore = -2, hit_top = -1, hit_perc = 2::real\<rparr>]"
  have run: "hit_filter ''qacc'' ''sacc'' ?rows = Inr ?hs"
    by (simp add: hit_filter_eval)
  have "\<exists>h\<in>set ?hs. hit_key h = (''q'', ''b'') \<and> 1 \<le> hit_perc h"
    by (rule hit_filter_negative_scores_kept [OF _ _ _ run, of qacc sacc Node_level ?rb])
       (auto simp: key_column_def qacc_level_def read_rows_def nrows_cap_def)
  with run show ?thesis by simp
qed

text \<open>
  C40. With the columns blastgraph.py passes (nodes from \<open>sscinames\<close>, edges from
  \<open>qacc\<close>), a surviving hit's score is the best score of its (species, query) pair,
  and the score it is divided by is the best score of its query over all species, not of
  its species: rows without a species name take no part.
\<close>

theorem hit_filter_cli_columns:
  assumes "hit_filter ''sscinames'' ''qacc'' rows = Inr hs" and "h \<in> set hs"
  shows "hit_bitscore h = Max {bitscore r | r. r \<in> set (read_rows rows) \<and>
                                 sscinames r = Some (hit_node h) \<and> qacc r = Some (hit_edge h)} \<and>
         hit_top h = Max {bitscore r | r. r \<in> set (read_rows rows) \<and>
                            sscinames r \<noteq> None \<and> qacc r = Some (hit_edge h)} \<and>
         hit_perc h = hit_bitscore h / hit_top h"
proof -
  let ?kv = "keyed_scores sscinames qacc (read_rows rows)"
  have hs: "hs = select_hits Edge_level (best_hits ?kv)"
    using assms(1) by (simp add: hit_filter_def key_column_def qacc_level_def)
  from assms(2) hs have "h \<in> set (select_hits Edge_level (best_hits ?kv))" by simp
  then obtain n e s where
    mem: "((n, e), s) \<in> set (best_hits ?kv)" and
    h: "h = \<lparr>hit_node = n, hit_edge = e, hit_bitscore = s, hit_top = top_bitscore Edge_level (best_hits ?kv) (n, e),
             hit_perc = s / top_bitscore Edge_level (best_hits ?kv) (n, e)\<rparr>"
    unfolding select_hits_member by blast
  from mem have s: "s = Max {s. ((n, e), s) \<in> set ?kv}" by (auto simp: best_hits_member)
  from mem have kv: "((n, e), s) \<in> set ?kv" by (rule best_hits_in)
  have S1: "{s. ((n, e), s) \<in> set ?kv} = {bitscore r | r. r \<in> set (read_rows rows) \<and>
              sscinames r = Some n \<and> qacc r = Some e}"
    by (auto simp: keyed_scores_member)
  have S2: "{s. \<exists>k'. (k', s) \<in> set ?kv \<and> level_key Edge_level k' = level_key Edge_level (n, e)} =
            {bitscore r | r. r \<in> set (read_rows rows) \<and> sscinames r \<noteq> None \<and> qacc r = Some e}"
    by (auto simp: keyed_scores_member)
  show ?thesis
    using h s S1 S2 top_bitscore_best [OF kv, of Edge_level] by simp
qed

theorem hit_filter_cli_columns_witness:
  "hit_filter ''sscinames'' ''qacc''
     [\<lparr>qacc = Some ''q1'', sacc = Some ''s1'', bitscore = 100, evalue = 0, sscinames = Some ''A''\<rparr>,
      \<lparr>qacc = Some ''q1'', sacc = Some ''s2'', bitscore = 50, evalue = 0, sscinames = Some ''B''\<rparr>,
      \<lparr>qacc = Some ''q2'', sacc = Some ''s3'', bitscore = 80, evalue = 0, sscinames = None\<rparr>]
   = Inr [\<lparr>hit_node = ''A'', hit_edge = ''q1'', hit_bitscore = 100, hit_top = 100, hit_perc = 1\<rparr>]
   \<and> (100::real) = Max {bitscore r | r. r \<in> set (read_rows
       [\<lparr>qacc = Some ''q1'', sacc = Some ''s1'', bitscore = 100, evalue = 0, sscinames = Some ''A''\<rparr>,
        \<lparr>qacc = Some ''q1'', sacc = Some ''s2'', bitscore = 50, evalue = 0, sscinames = Some ''B''\<rparr>,
        \<lparr>qacc = Some ''q2'', sacc = Some ''s3'', bitscore = 80, evalue = 0, sscinames = None\<rparr>])
         \<and> sscinames r \<noteq> None \<and> qacc r = Some ''q1''}"
proof -
  let ?rows = "[\<lparr>qacc = Some ''q1'', sacc = Some ''s1'', bitscore = 100::real, evalue = 0, sscinames = Some ''A''\<rparr>,
      \<lparr>qacc = Some ''q1'', sacc = Some ''s2'', bitscore = 50, evalue = 0, sscinames = Some ''B''\<rparr>,
      \<lparr>qacc = Some ''q2'', sacc = Some ''s3'', bitscore = 80, evalue = 0, sscinames = None\<rparr>]"
  let ?h = "\<lparr>hit_node = ''A'', hit_edge = ''q1'', hit_bitscore = 100, hit_top = 100, hit_perc = 1::real\<rparr>"
  have run: "hit_filter ''sscinames'' ''qacc'' ?rows = Inr [?h]"
    by (simp add: hit_filter_eval)
  from hit_filter_cli_columns [OF run] run show ?thesis by simp
qed

end
