(* ===== verification/Overlap.thy ===== *)
theory Overlap
  imports HitFilter
begin

text \<open>
  OverlapEdgeBuilder: lines 38--93 of \<open>_blast_to_graph\<close> (src/src/blast_to_graph.py).
  From the filtered hits it takes the sorted node names and, per node, the sorted list of
  its edge names (targets); a double loop over node pairs \<open>i < j\<close> walks one target
  list and records a row \<open>(node_i, node_j, target, mean of the two relative scores)\<close>
  for every target the other list contains, counting rows per node in
  \<open>node_num_edges\<close>. Nodes without rows are dropped, rows of one pair are summed, and
  node names are replaced by their positions among the surviving names.
\<close>

section \<open>Data\<close>

text \<open>The loop's state: the rows of \<open>edges_all\<close> and the array \<open>node_num_edges\<close>.\<close>

type_synonym overlap_row = "name \<times> name \<times> name \<times> real"

record overlap_state =
  ov_rows :: "overlap_row list"
  ov_counts :: "nat list"

section \<open>Operations\<close>

text \<open>Line 38: \<open>sorted(blast.index.get_level_values(node_col).unique())\<close>.\<close>

definition node_names :: "hit list \<Rightarrow> name list" where
  "node_names hs = sort (remdups (map hit_node hs))"

text \<open>Line 39: computed, never used afterwards.\<close>

definition edge_names :: "hit list \<Rightarrow> name list" where
  "edge_names hs = sort (remdups (map hit_edge hs))"

text \<open>Line 41: the sorted distinct edge names of one node.\<close>

definition node_edges :: "hit list \<Rightarrow> name \<Rightarrow> name list" where
  "node_edges hs n = sort (remdups (map hit_edge (filter (\<lambda>h. hit_node h = n) hs)))"

text \<open>Lines 76--77: \<open>blast.loc[(node, edge_name), "bitscore_perc"]\<close>; a missing key raises.\<close>

definition perc_at :: "hit list \<Rightarrow> name \<Rightarrow> name \<Rightarrow> py_error + real" where
  "perc_at hs n e =
     (case find (\<lambda>h. hit_key h = (n, e)) hs of None \<Rightarrow> Inl KeyError | Some h \<Rightarrow> Inr (hit_perc h))"

text \<open>
  Lines 65--69, as written: the two lists are swapped when the first is the shorter, so
  the loop of line 73 walks the longer list and looks names up in the shorter one.
\<close>

definition driver_lists :: "name list \<Rightarrow> name list \<Rightarrow> name list \<times> name list" where
  "driver_lists nbr_i nbr_j = (if length nbr_i < length nbr_j then (nbr_j, nbr_i) else (nbr_i, nbr_j))"

text \<open>Lines 81--83: append a row, then \<open>node_num_edges[i] += 1\<close> and \<open>[j] += 1\<close>.\<close>

definition bump_pair :: "nat \<Rightarrow> nat \<Rightarrow> nat list \<Rightarrow> nat list" where
  "bump_pair i j c = (let c1 = c[i := c ! i + 1] in c1[j := c1 ! j + 1])"

definition record_shared ::
  "nat \<Rightarrow> nat \<Rightarrow> overlap_row \<Rightarrow> overlap_state \<Rightarrow> overlap_state" where
  "record_shared i j row st =
     st\<lparr>ov_rows := ov_rows st @ [row], ov_counts := bump_pair i j (ov_counts st)\<rparr>"

text \<open>Lines 76--83: look both relative scores up and record the shared target.\<close>

definition add_shared ::
  "hit list \<Rightarrow> nat \<Rightarrow> nat \<Rightarrow> name \<Rightarrow> name \<Rightarrow> name \<Rightarrow> overlap_state \<Rightarrow> py_error + overlap_state" where
  "add_shared hs i j ni nj e st =
     (case perc_at hs ni e of
        Inl err \<Rightarrow> Inl err
      | Inr wi \<Rightarrow>
          (case perc_at hs nj e of
             Inl err \<Rightarrow> Inl err
           | Inr wj \<Rightarrow> Inr (record_shared i j (ni, nj, e, 0.5 * (wi + wj)) st)))"

text \<open>Lines 73--74: the body for one edge name of the walked list.\<close>

definition edge_step ::
  "hit list \<Rightarrow> nat \<Rightarrow> nat \<Rightarrow> name \<Rightarrow> name \<Rightarrow> name list \<Rightarrow> name \<Rightarrow> overlap_state
   \<Rightarrow> py_error + overlap_state" where
  "edge_step hs i j ni nj longer e st =
     (if e \<in> set longer then add_shared hs i j ni nj e st else Inr st)"

text \<open>Lines 59--83: one pair of nodes.\<close>

definition pair_step :: "hit list \<Rightarrow> name list \<Rightarrow> nat \<Rightarrow> nat \<Rightarrow> overlap_state \<Rightarrow> py_error + overlap_state" where
  "pair_step hs names i j st =
     (let ni = names ! i; nj = names ! j;
          (shorter, longer) = driver_lists (node_edges hs ni) (node_edges hs nj)
      in fold_err (edge_step hs i j ni nj longer) shorter st)"

text \<open>Lines 43--83: both loops, from an empty table and zero counts.\<close>

definition find_edges :: "hit list \<Rightarrow> py_error + overlap_state" where
  "find_edges hs =
     (let names = node_names hs
      in fold_err (\<lambda>i. fold_err (\<lambda>j. pair_step hs names i j) [Suc i..<length names])
           [0..<length names] \<lparr>ov_rows = [], ov_counts = replicate (length names) 0\<rparr>)"

text \<open>Line 86: \<open>node_names[node_num_edges > 0]\<close>.\<close>

definition remove_isolated :: "name list \<Rightarrow> nat list \<Rightarrow> name list" where
  "remove_isolated names counts = map fst (filter (\<lambda>(n, c). 0 < c) (zip names counts))"

text \<open>
  Line 89: \<open>groupby(["node1", "node2"]).agg({"weight": "sum"})\<close>: one row per pair,
  pairs in sorted order.
\<close>

definition pair_weight :: "name \<times> name \<Rightarrow> overlap_row list \<Rightarrow> real" where
  "pair_weight k rows = sum_list (map (\<lambda>(a, b, e, w). w) (filter (\<lambda>(a, b, e, w). (a, b) = k) rows))"

definition merge_edges :: "overlap_row list \<Rightarrow> ((name \<times> name) \<times> real) list" where
  "merge_edges rows =
     map (\<lambda>k. (k, pair_weight k rows)) (sort (remdups (map (\<lambda>(a, b, e, w). (a, b)) rows)))"

text \<open>Lines 92--93: both name columns replaced by \<open>node_names.index(n)\<close>, one after the other.\<close>

definition index_edges ::
  "name list \<Rightarrow> ((name \<times> name) \<times> real) list \<Rightarrow> py_error + (nat \<times> nat \<times> real) list" where
  "index_edges names merged =
     (case map_err (\<lambda>((a, b), w). py_index names a) merged of
        Inl err \<Rightarrow> Inl err
      | Inr is1 \<Rightarrow>
          (case map_err (\<lambda>((a, b), w). py_index names b) merged of
             Inl err \<Rightarrow> Inl err
           | Inr is2 \<Rightarrow> Inr (map (\<lambda>((i1, i2), w). (i1, i2, w)) (zip (zip is1 is2) (map snd merged)))))"

text \<open>Lines 38--93 composed: the surviving node names and the weighted edges by index.\<close>

definition overlap_graph :: "hit list \<Rightarrow> py_error + name list \<times> (nat \<times> nat \<times> real) list" where
  "overlap_graph hs =
     (case find_edges hs of
        Inl err \<Rightarrow> Inl err
      | Inr st \<Rightarrow>
          (let names = remove_isolated (node_names hs) (ov_counts st)
           in case index_edges names (merge_edges (ov_rows st)) of
                Inl err \<Rightarrow> Inl err
              | Inr es \<Rightarrow> Inr (names, es)))"

subsection \<open>Reference definitions\<close>

text \<open>
  What the loop means, written without state: the rows of one pair are its shared
  targets, in the order of node \<open>i\<close>'s sorted list, each weighted by the mean of the two
  relative scores.
\<close>

definition shared_targets :: "hit list \<Rightarrow> name \<Rightarrow> name \<Rightarrow> name list" where
  "shared_targets hs ni nj = filter (\<lambda>e. e \<in> set (node_edges hs nj)) (node_edges hs ni)"

definition perc_val :: "hit list \<Rightarrow> name \<Rightarrow> name \<Rightarrow> real" where
  "perc_val hs n e = (case find (\<lambda>h. hit_key h = (n, e)) hs of None \<Rightarrow> 0 | Some h \<Rightarrow> hit_perc h)"

definition pair_rows :: "hit list \<Rightarrow> name \<Rightarrow> name \<Rightarrow> overlap_row list" where
  "pair_rows hs ni nj =
     map (\<lambda>e. (ni, nj, e, 0.5 * (perc_val hs ni e + perc_val hs nj e))) (shared_targets hs ni nj)"

text \<open>The loop of line 73 as the spec describes it: always walking node \<open>i\<close>'s list.\<close>

definition pair_step_ref :: "hit list \<Rightarrow> name list \<Rightarrow> nat \<Rightarrow> nat \<Rightarrow> overlap_state \<Rightarrow> py_error + overlap_state" where
  "pair_step_ref hs names i j st =
     fold_err (edge_step hs i j (names ! i) (names ! j) (node_edges hs (names ! j))) (node_edges hs (names ! i)) st"

definition overlap_rows :: "hit list \<Rightarrow> overlap_row list" where
  "overlap_rows hs =
     (let names = node_names hs
      in concat (map (\<lambda>i. concat (map (\<lambda>j. pair_rows hs (names ! i) (names ! j)) [Suc i..<length names]))
                   [0..<length names]))"

definition rows_involving :: "name \<Rightarrow> overlap_row list \<Rightarrow> nat" where
  "rows_involving n rows = length (filter (\<lambda>(a, b, e, w). a = n \<or> b = n) rows)"

definition counts_inv :: "name list \<Rightarrow> overlap_state \<Rightarrow> bool" where
  "counts_inv names st \<longleftrightarrow> length (ov_counts st) = length names \<and>
     (\<forall>k<length names. ov_counts st ! k = rows_involving (names ! k) (ov_rows st))"

text \<open>The spec's relation: two queries share at least one target among their surviving hits.\<close>

definition shares_target :: "hit list \<Rightarrow> name \<Rightarrow> name \<Rightarrow> bool" where
  "shares_target hs n m \<longleftrightarrow> set (node_edges hs n) \<inter> set (node_edges hs m) \<noteq> {}"

section \<open>Lemmas\<close>

lemmas overlap_eval = overlap_graph_def find_edges_def pair_step_def node_names_def node_edges_def
  driver_lists_def edge_step_def add_shared_def perc_at_def record_shared_def bump_pair_def
  remove_isolated_def merge_edges_def pair_weight_def index_edges_def hit_key_def upt_rec

lemma node_names_sorted [simp]: "sorted_wrt (<) (node_names hs)"
  by (simp add: node_names_def)

lemma node_edges_sorted [simp]: "sorted_wrt (<) (node_edges hs n)"
  by (simp add: node_edges_def)

lemma set_node_names [simp]: "set (node_names hs) = hit_node ` set hs"
  by (simp add: node_names_def)

lemma set_node_edges [simp]:
  "set (node_edges hs n) = {e. \<exists>h\<in>set hs. hit_node h = n \<and> hit_edge h = e}"
  by (auto simp: node_edges_def)

lemma perc_at_Inr:
  assumes "e \<in> set (node_edges hs n)"
  shows "perc_at hs n e = Inr (perc_val hs n e)"
proof -
  from assms obtain h where "h \<in> set hs" "hit_key h = (n, e)"
    by (auto simp: hit_key_def)
  then have "find (\<lambda>h. hit_key h = (n, e)) hs \<noteq> None"
    by (auto simp: find_None_iff)
  then show ?thesis
    by (auto simp: perc_at_def perc_val_def)
qed

lemma edge_step_fun:
  "edge_step hs i j ni nj longer = (\<lambda>e st. if e \<in> set longer then add_shared hs i j ni nj e st else Inr st)"
  by (simp add: edge_step_def fun_eq_iff)

lemma pair_step_guarded:
  "pair_step hs names i j st =
     (let ni = names ! i; nj = names ! j;
          (shorter, longer) = driver_lists (node_edges hs ni) (node_edges hs nj)
      in fold_err (add_shared hs i j ni nj) (filter (\<lambda>e. e \<in> set longer) shorter) st)"
  by (simp add: pair_step_def edge_step_fun fold_err_guard [symmetric])

lemma driver_lists_shared:
  assumes "driver_lists (node_edges hs ni) (node_edges hs nj) = (shorter, longer)"
  shows "filter (\<lambda>e. e \<in> set longer) shorter = shared_targets hs ni nj"
  using assms sorted_filter_inter_comm [OF node_edges_sorted node_edges_sorted, of hs nj hs ni]
  by (auto simp: driver_lists_def shared_targets_def split: if_splits)

lemma pair_step_shared:
  "pair_step hs names i j st =
     fold_err (add_shared hs i j (names ! i) (names ! j)) (shared_targets hs (names ! i) (names ! j)) st"
  using driver_lists_shared [of hs "names ! i" "names ! j"]
  by (simp add: pair_step_guarded Let_def split: prod.splits)

lemma shared_targets_mem:
  "e \<in> set (shared_targets hs ni nj) \<Longrightarrow> e \<in> set (node_edges hs ni) \<and> e \<in> set (node_edges hs nj)"
  unfolding shared_targets_def by (simp only: set_filter) blast

lemma add_shared_Inr:
  assumes "e \<in> set (shared_targets hs ni nj)"
  shows "add_shared hs i j ni nj e st =
           Inr (record_shared i j (ni, nj, e, 0.5 * (perc_val hs ni e + perc_val hs nj e)) st)"
  using shared_targets_mem [OF assms] by (simp add: add_shared_def perc_at_Inr)

lemma bump_pair_nth:
  assumes "i < length c" "j < length c" "i \<noteq> j" "k < length c"
  shows "bump_pair i j c ! k = c ! k + (if k = i then 1 else 0) + (if k = j then 1 else 0)"
  using assms by (auto simp: bump_pair_def Let_def nth_list_update)

lemma length_bump_pair [simp]: "length (bump_pair i j c) = length c"
  by (simp add: bump_pair_def Let_def)

lemma rows_involving_snoc:
  "rows_involving n (rows @ [(a, b, e, w)]) = rows_involving n rows + (if a = n \<or> b = n then 1 else 0)"
  by (simp add: rows_involving_def)

text \<open>Recording one row keeps the counts equal to the rows' incidences.\<close>

lemma record_shared_counts_inv:
  assumes inv: "counts_inv names st" and "distinct names" and "i < j" "j < length names"
  shows "counts_inv names (record_shared i j (names ! i, names ! j, e, w) st)"
  unfolding counts_inv_def
proof (intro conjI allI impI)
  show "length (ov_counts (record_shared i j (names ! i, names ! j, e, w) st)) = length names"
    using inv by (simp add: counts_inv_def record_shared_def)
next
  fix k assume k: "k < length names"
  have eq: "\<And>m. m < length names \<Longrightarrow> names ! m = names ! k \<longleftrightarrow> m = k"
    using assms(2) k by (auto simp: nth_eq_iff_index_eq)
  from inv k assms(3,4) show "ov_counts (record_shared i j (names ! i, names ! j, e, w) st) ! k =
      rows_involving (names ! k) (ov_rows (record_shared i j (names ! i, names ! j, e, w) st))"
    by (auto simp: counts_inv_def record_shared_def bump_pair_nth rows_involving_snoc eq)
qed

lemma pair_step_Inr: "\<exists>st'. pair_step hs names i j st = Inr st'"
  unfolding pair_step_shared by (rule fold_err_total) (simp add: add_shared_Inr)

lemma pair_step_rows:
  assumes "pair_step hs names i j st = Inr st'"
  shows "ov_rows st' = ov_rows st @ pair_rows hs (names ! i) (names ! j)"
proof -
  have "ov_rows st' = ov_rows st @ concat (map (\<lambda>e. [(names ! i, names ! j, e,
      0.5 * (perc_val hs (names ! i) e + perc_val hs (names ! j) e))])
      (shared_targets hs (names ! i) (names ! j)))"
    by (rule fold_err_appends [OF _ assms [unfolded pair_step_shared]])
       (auto simp: add_shared_Inr record_shared_def)
  then show ?thesis by (simp add: pair_rows_def concat_map_singleton)
qed

lemma pair_step_counts_inv:
  assumes "pair_step hs names i j st = Inr st'"
    and "counts_inv names st" and "distinct names" and "i < j" "j < length names"
  shows "counts_inv names st'"
  using assms(1) [unfolded pair_step_shared]
proof (rule fold_err_invariant [where I = "counts_inv names", rotated 2])
  show "counts_inv names st" by (rule assms(2))
next
  fix e s s'
  assume "e \<in> set (shared_targets hs (names ! i) (names ! j))" "counts_inv names s"
    "add_shared hs i j (names ! i) (names ! j) e s = Inr s'"
  then show "counts_inv names s'"
    by (auto simp: add_shared_Inr intro: record_shared_counts_inv [OF _ assms(3-5)])
qed

lemma row_loop_Inr: "\<exists>st'. fold_err (\<lambda>j. pair_step hs names i j) js st = Inr st'"
  by (rule fold_err_total) (rule pair_step_Inr)

lemma row_loop_rows:
  "fold_err (\<lambda>j. pair_step hs names i j) js st = Inr st' \<Longrightarrow>
   ov_rows st' = ov_rows st @ concat (map (\<lambda>j. pair_rows hs (names ! i) (names ! j)) js)"
  by (rule fold_err_appends) (auto dest: pair_step_rows)

lemma row_loop_counts_inv:
  assumes "fold_err (\<lambda>j. pair_step hs names i j) [Suc i..<length names] st = Inr st'"
    and "counts_inv names st" and "distinct names"
  shows "counts_inv names st'"
  using assms(1)
proof (rule fold_err_invariant [where I = "counts_inv names", rotated 2])
  show "counts_inv names st" by (rule assms(2))
next
  fix j s s'
  assume "j \<in> set [Suc i..<length names]" "counts_inv names s" "pair_step hs names i j s = Inr s'"
  then show "counts_inv names s'"
    using pair_step_counts_inv [OF _ _ assms(3)] by simp
qed

lemma find_edges_Inr: "\<exists>st. find_edges hs = Inr st"
  unfolding find_edges_def Let_def by (rule fold_err_total) (rule row_loop_Inr)

lemma find_edges_rows:
  assumes "find_edges hs = Inr st"
  shows "ov_rows st = overlap_rows hs"
proof -
  let ?names = "node_names hs"
  let ?init = "\<lparr>ov_rows = [], ov_counts = replicate (length ?names) 0\<rparr>"
  let ?R = "\<lambda>i. concat (map (\<lambda>j. pair_rows hs (?names ! i) (?names ! j)) [Suc i..<length ?names])"
  from assms have run: "fold_err (\<lambda>i. fold_err (\<lambda>j. pair_step hs ?names i j) [Suc i..<length ?names])
      [0..<length ?names] ?init = Inr st"
    by (simp add: find_edges_def Let_def)
  have "ov_rows st = ov_rows ?init @ concat (map ?R [0..<length ?names])"
    by (rule fold_err_appends [where R = ?R, OF _ run]) (erule row_loop_rows)
  then show ?thesis by (simp add: overlap_rows_def Let_def)
qed

lemma counts_inv_init: "counts_inv names \<lparr>ov_rows = [], ov_counts = replicate (length names) 0\<rparr>"
  by (simp add: counts_inv_def rows_involving_def)

lemma find_edges_counts: "find_edges hs = Inr st \<Longrightarrow> counts_inv (node_names hs) st"
  unfolding find_edges_def Let_def
proof (erule fold_err_invariant [where I = "counts_inv (node_names hs)", rotated 2])
  show "counts_inv (node_names hs) \<lparr>ov_rows = [], ov_counts = replicate (length (node_names hs)) 0\<rparr>"
    by (rule counts_inv_init)
next
  have "distinct (node_names hs)" by (simp add: node_names_def)
  then show "\<And>i s s'. counts_inv (node_names hs) s \<Longrightarrow>
      fold_err (pair_step hs (node_names hs) i) [Suc i..<length (node_names hs)] s = Inr s' \<Longrightarrow>
      counts_inv (node_names hs) s'"
    using row_loop_counts_inv by blast
qed

lemma pair_rows_member:
  "(a, b, e, w) \<in> set (pair_rows hs ni nj) \<longleftrightarrow>
     a = ni \<and> b = nj \<and> e \<in> set (shared_targets hs ni nj) \<and> w = 0.5 * (perc_val hs ni e + perc_val hs nj e)"
  by (auto simp: pair_rows_def)

lemma overlap_rows_nth:
  "(a, b, e, w) \<in> set (overlap_rows hs) \<longleftrightarrow>
     (\<exists>i j. i < j \<and> j < length (node_names hs) \<and> a = node_names hs ! i \<and> b = node_names hs ! j \<and>
        e \<in> set (shared_targets hs a b) \<and> w = 0.5 * (perc_val hs a e + perc_val hs b e))"
    (is "?l \<longleftrightarrow> (\<exists>i j. ?r i j)")
proof
  assume ?l
  then obtain i j where "i < length (node_names hs)" "j \<in> set [Suc i..<length (node_names hs)]"
    "(a, b, e, w) \<in> set (pair_rows hs (node_names hs ! i) (node_names hs ! j))"
    by (auto simp: overlap_rows_def Let_def)
  then have "?r i j" by (simp only: pair_rows_member) auto
  then show "\<exists>i j. ?r i j" by blast
next
  assume "\<exists>i j. ?r i j"
  then obtain i j where r: "?r i j" by blast
  then have "(a, b, e, w) \<in> set (pair_rows hs (node_names hs ! i) (node_names hs ! j))"
    using pair_rows_member [of a b e w hs "node_names hs ! i" "node_names hs ! j"] by blast
  with r show ?l
    unfolding overlap_rows_def Let_def set_concat set_map by force
qed

lemma sorted_less_pair_iff:
  assumes "sorted_wrt (<) (xs :: 'a :: linorder list)"
  shows "(\<exists>i j. i < j \<and> j < length xs \<and> a = xs ! i \<and> b = xs ! j) \<longleftrightarrow>
           a \<in> set xs \<and> b \<in> set xs \<and> a < b"
proof
  assume "\<exists>i j. i < j \<and> j < length xs \<and> a = xs ! i \<and> b = xs ! j"
  then obtain i j where "i < j" "j < length xs" "a = xs ! i" "b = xs ! j" by blast
  with assms show "a \<in> set xs \<and> b \<in> set xs \<and> a < b"
    by (auto simp: sorted_wrt_iff_nth_less)
next
  assume ab: "a \<in> set xs \<and> b \<in> set xs \<and> a < b"
  then obtain i j where i: "i < length xs" "a = xs ! i" and j: "j < length xs" "b = xs ! j"
    by (auto simp: in_set_conv_nth)
  have "i < j"
  proof (rule ccontr)
    assume "\<not> i < j"
    then consider "j < i" | "j = i" by arith
    then have "b \<le> a"
    proof cases
      case 1
      with assms i(1) have "xs ! j < xs ! i" by (simp add: sorted_wrt_iff_nth_less)
      with i j show ?thesis by simp
    next
      case 2
      with i j show ?thesis by simp
    qed
    with ab show False by (meson leD)
  qed
  with i j show "\<exists>i j. i < j \<and> j < length xs \<and> a = xs ! i \<and> b = xs ! j" by blast
qed

text \<open>The rows of the loop, by node names: one per shared target of every pair \<open>a < b\<close>.\<close>

lemma overlap_rows_iff:
  "(a, b, e, w) \<in> set (overlap_rows hs) \<longleftrightarrow>
     a \<in> hit_node ` set hs \<and> b \<in> hit_node ` set hs \<and> a < b \<and>
     e \<in> set (shared_targets hs a b) \<and> w = 0.5 * (perc_val hs a e + perc_val hs b e)"
  using sorted_less_pair_iff [of "node_names hs" a b] node_names_sorted [of hs]
  by (simp only: overlap_rows_nth set_node_names) blast

lemma rows_involving_pos:
  "0 < rows_involving n rows \<longleftrightarrow> (\<exists>(a, b, e, w)\<in>set rows. a = n \<or> b = n)"
  by (auto simp: rows_involving_def filter_empty_conv)

lemma remove_isolated_set:
  "length counts = length names \<Longrightarrow>
   set (remove_isolated names counts) = {names ! k | k. k < length names \<and> 0 < counts ! k}"
  unfolding remove_isolated_def set_map set_filter
  by (auto simp: set_zip image_iff) (force simp: set_zip)

lemma remove_isolated_sorted:
  "sorted_wrt R names \<Longrightarrow> sorted_wrt R (remove_isolated names counts)"
proof (induction names arbitrary: counts)
  case Nil
  then show ?case by (simp add: remove_isolated_def)
next
  case (Cons n ns)
  show ?case
  proof (cases counts)
    case Nil
    then show ?thesis by (simp add: remove_isolated_def)
  next
    case (Cons c cs)
    have sub: "set (remove_isolated ns cs) \<subseteq> set ns"
      by (auto simp: remove_isolated_def dest: set_zip_leftD)
    from Cons.IH [of cs] Cons.prems sub Cons show ?thesis
      by (auto simp: remove_isolated_def)
  qed
qed

text \<open>A node survives exactly when some row of the loop has it as an endpoint.\<close>

lemma find_edges_survivors:
  assumes "find_edges hs = Inr st"
  shows "n \<in> set (remove_isolated (node_names hs) (ov_counts st)) \<longleftrightarrow>
           n \<in> hit_node ` set hs \<and> (\<exists>(a, b, e, w)\<in>set (overlap_rows hs). a = n \<or> b = n)"
proof -
  have inv: "counts_inv (node_names hs) st" by (rule find_edges_counts [OF assms])
  then have len: "length (ov_counts st) = length (node_names hs)" by (simp add: counts_inv_def)
  have "n \<in> set (remove_isolated (node_names hs) (ov_counts st)) \<longleftrightarrow>
      (\<exists>k<length (node_names hs). n = node_names hs ! k \<and> 0 < rows_involving n (ov_rows st))"
    using inv by (auto simp: remove_isolated_set [OF len] counts_inv_def)
  also have "\<dots> \<longleftrightarrow> n \<in> set (node_names hs) \<and> 0 < rows_involving n (ov_rows st)"
    by (metis in_set_conv_nth)
  finally show ?thesis
    by (simp add: find_edges_rows [OF assms] rows_involving_pos)
qed

lemma filter_pair_rows:
  "filter (\<lambda>(a', b', e, w). (a', b') = (a, b)) (pair_rows hs ni nj) =
     (if (ni, nj) = (a, b) then pair_rows hs ni nj else [])"
  by (auto simp: pair_rows_def filter_empty_conv)

text \<open>The rows of one pair of names are the rows the loop made for that pair.\<close>

lemma overlap_rows_of_pair:
  assumes "a \<in> hit_node ` set hs" and "b \<in> hit_node ` set hs" and "a < b"
  shows "filter (\<lambda>(a', b', e, w). (a', b') = (a, b)) (overlap_rows hs) = pair_rows hs a b"
proof -
  let ?names = "node_names hs"
  let ?P = "\<lambda>(a', b', e, w). (a', b') = (a, b)"
  from assms sorted_less_pair_iff [of ?names a b] obtain i0 j0 where
    ij: "i0 < j0" "j0 < length ?names" "a = ?names ! i0" "b = ?names ! j0"
    by auto
  have dist: "distinct ?names" by (simp add: node_names_def)
  have inner: "\<And>i. i < length ?names \<Longrightarrow>
      concat (map (\<lambda>j. filter ?P (pair_rows hs (?names ! i) (?names ! j))) [Suc i..<length ?names]) =
      (if i = i0 then pair_rows hs a b else [])"
  proof -
    fix i assume i: "i < length ?names"
    show "concat (map (\<lambda>j. filter ?P (pair_rows hs (?names ! i) (?names ! j))) [Suc i..<length ?names]) =
      (if i = i0 then pair_rows hs a b else [])"
    proof (cases "i = i0")
      case True
      have blk: "concat (map (\<lambda>j. filter ?P (pair_rows hs (?names ! i) (?names ! j))) [Suc i..<length ?names]) =
          filter ?P (pair_rows hs (?names ! i) (?names ! j0))"
      proof (rule concat_map_single)
        show "distinct [Suc i..<length ?names]" by simp
        show "j0 \<in> set [Suc i..<length ?names]" using True ij by simp
      next
        fix j assume j: "j \<in> set [Suc i..<length ?names]" "j \<noteq> j0"
        with ij dist have "?names ! j \<noteq> b" by (auto simp: nth_eq_iff_index_eq)
        then show "filter ?P (pair_rows hs (?names ! i) (?names ! j)) = []"
          by (simp only: filter_pair_rows) simp
      qed
      have "filter ?P (pair_rows hs (?names ! i) (?names ! j0)) = pair_rows hs a b"
        using True ij by (simp only: filter_pair_rows) simp
      with blk True show ?thesis by simp
    next
      case False
      with i ij dist have ne: "?names ! i \<noteq> a" by (auto simp: nth_eq_iff_index_eq)
      have "\<And>j. filter ?P (pair_rows hs (?names ! i) (?names ! j)) = []"
        using ne by (simp only: filter_pair_rows) simp
      with False show ?thesis by simp
    qed
  qed
  have "filter ?P (overlap_rows hs) =
      concat (map (\<lambda>i. concat (map (\<lambda>j. filter ?P (pair_rows hs (?names ! i) (?names ! j)))
        [Suc i..<length ?names])) [0..<length ?names])"
    by (simp add: overlap_rows_def Let_def filter_concat comp_def)
  also have "\<dots> = concat (map (\<lambda>i. if i = i0 then pair_rows hs a b else []) [0..<length ?names])"
  proof (rule arg_cong [where f = concat], rule map_cong [OF refl])
    fix i assume "i \<in> set [0..<length ?names]"
    then have "i < length ?names" by simp
    then show "concat (map (\<lambda>j. filter ?P (pair_rows hs (?names ! i) (?names ! j))) [Suc i..<length ?names]) =
      (if i = i0 then pair_rows hs a b else [])"
      by (rule inner)
  qed
  also have "\<dots> = pair_rows hs a b"
    using ij by (subst concat_map_single [where z = i0]) auto
  finally show ?thesis .
qed

lemma pair_weight_overlap:
  assumes "a \<in> hit_node ` set hs" and "b \<in> hit_node ` set hs" and "a < b"
  shows "pair_weight (a, b) (overlap_rows hs) =
           sum_list (map (\<lambda>e. 0.5 * (perc_val hs a e + perc_val hs b e)) (shared_targets hs a b))"
  using overlap_rows_of_pair [OF assms]
  by (simp add: pair_weight_def pair_rows_def comp_def)

lemma merge_edges_member:
  "((a, b), w) \<in> set (merge_edges rows) \<longleftrightarrow>
     (\<exists>e w'. (a, b, e, w') \<in> set rows) \<and> w = pair_weight (a, b) rows"
  by (auto simp: merge_edges_def image_iff) force+

lemma merge_edges_sorted: "sorted_wrt (<) (map fst (merge_edges rows))"
  by (simp add: merge_edges_def comp_def)

lemma index_edges_Inr:
  assumes "index_edges names merged = Inr es"
  shows "length es = length merged \<and>
    (\<forall>k<length merged. \<exists>i j. es ! k = (i, j, snd (merged ! k)) \<and> i < length names \<and> j < length names \<and>
        names ! i = fst (fst (merged ! k)) \<and> names ! j = snd (fst (merged ! k)))"
proof -
  from assms obtain is1 is2 where
    m1: "map_err (\<lambda>((a, b), w). py_index names a) merged = Inr is1" and
    m2: "map_err (\<lambda>((a, b), w). py_index names b) merged = Inr is2" and
    es: "es = map (\<lambda>((i1, i2), w). (i1, i2, w)) (zip (zip is1 is2) (map snd merged))"
    by (auto simp: index_edges_def split: sum.splits)
  have A: "length is1 = length merged \<and>
      (\<forall>k<length merged. (\<lambda>((a, b), w). py_index names a) (merged ! k) = Inr (is1 ! k))"
    by (rule map_err_Inr [OF m1])
  have B: "length is2 = length merged \<and>
      (\<forall>k<length merged. (\<lambda>((a, b), w). py_index names b) (merged ! k) = Inr (is2 ! k))"
    by (rule map_err_Inr [OF m2])
  from A B have l: "length is1 = length merged" "length is2 = length merged" by simp_all
  show ?thesis
  proof (intro conjI allI impI)
    show "length es = length merged" using l es by simp
  next
    fix k assume k: "k < length merged"
    obtain a b w where mk: "merged ! k = ((a, b), w)" by (metis prod.exhaust)
    from A k mk have "py_index names a = Inr (is1 ! k)" by auto
    from py_index_Inr [OF this] have pa: "is1 ! k < length names" "names ! (is1 ! k) = a" by simp_all
    from B k mk have "py_index names b = Inr (is2 ! k)" by auto
    from py_index_Inr [OF this] have pb: "is2 ! k < length names" "names ! (is2 ! k) = b" by simp_all
    have "es ! k = (is1 ! k, is2 ! k, w)" using k l es mk by simp
    with mk pa pb show "\<exists>i j. es ! k = (i, j, snd (merged ! k)) \<and> i < length names \<and> j < length names \<and>
        names ! i = fst (fst (merged ! k)) \<and> names ! j = snd (fst (merged ! k))"
      by simp
  qed
qed

lemma index_edges_succeeds:
  assumes "\<And>a b w. ((a, b), w) \<in> set merged \<Longrightarrow> a \<in> set names \<and> b \<in> set names"
  shows "\<exists>es. index_edges names merged = Inr es"
proof -
  have "\<exists>is1. map_err (\<lambda>((a, b), w). py_index names a) merged = Inr is1"
  proof (rule map_err_succeeds)
    fix x assume x: "x \<in> set merged"
    obtain a b w where xe: "x = ((a, b), w)" by (metis prod.exhaust)
    from x xe assms have "a \<in> set names" by blast
    then obtain y where "py_index names a = Inr y" by (metis py_index_in_set)
    with xe show "\<exists>y. (\<lambda>((a, b), w). py_index names a) x = Inr y" by simp
  qed
  moreover have "\<exists>is2. map_err (\<lambda>((a, b), w). py_index names b) merged = Inr is2"
  proof (rule map_err_succeeds)
    fix x assume x: "x \<in> set merged"
    obtain a b w where xe: "x = ((a, b), w)" by (metis prod.exhaust)
    from x xe assms have "b \<in> set names" by blast
    then obtain y where "py_index names b = Inr y" by (metis py_index_in_set)
    with xe show "\<exists>y. (\<lambda>((a, b), w). py_index names b) x = Inr y" by simp
  qed
  ultimately show ?thesis by (auto simp: index_edges_def)
qed

text \<open>Every endpoint of a merged edge is a surviving node, so the index look-ups succeed.\<close>

lemma merged_endpoints_survive:
  assumes "find_edges hs = Inr st" and "((a, b), w) \<in> set (merge_edges (ov_rows st))"
  shows "a \<in> set (remove_isolated (node_names hs) (ov_counts st)) \<and>
         b \<in> set (remove_isolated (node_names hs) (ov_counts st))"
proof -
  from assms(2) obtain e w' where r: "(a, b, e, w') \<in> set (overlap_rows hs)"
    by (auto simp: merge_edges_member find_edges_rows [OF assms(1)])
  then have "a \<in> hit_node ` set hs" "b \<in> hit_node ` set hs"
    by (simp_all only: overlap_rows_iff)
  with r show ?thesis
    unfolding find_edges_survivors [OF assms(1)] by blast
qed

lemma overlap_graph_Inr:
  assumes "overlap_graph hs = Inr (names, es)"
  obtains st where "find_edges hs = Inr st"
    and "names = remove_isolated (node_names hs) (ov_counts st)"
    and "index_edges names (merge_edges (ov_rows st)) = Inr es"
  using assms by (auto simp: overlap_graph_def Let_def split: sum.splits)

lemma overlap_graph_names_sorted:
  "overlap_graph hs = Inr (names, es) \<Longrightarrow> sorted_wrt (<) names"
  by (erule overlap_graph_Inr) (simp add: remove_isolated_sorted)

text \<open>An edge by index is a merged pair of names, with that pair's summed weight.\<close>

lemma overlap_graph_edge_names:
  assumes "overlap_graph hs = Inr (names, es)" and "(i, j, w) \<in> set es"
  shows "i < length names \<and> j < length names \<and>
    ((names ! i, names ! j), w) \<in> set (merge_edges (overlap_rows hs))"
proof -
  obtain st where fe: "find_edges hs = Inr st"
    and ix: "index_edges names (merge_edges (ov_rows st)) = Inr es"
    by (rule overlap_graph_Inr [OF assms(1)])
  from assms(2) obtain k where k: "k < length es" "es ! k = (i, j, w)"
    by (auto simp: in_set_conv_nth)
  let ?m = "merge_edges (ov_rows st)"
  from index_edges_Inr [OF ix] k obtain i' j' where
    e: "es ! k = (i', j', snd (?m ! k))" "i' < length names" "j' < length names"
       "names ! i' = fst (fst (?m ! k))" "names ! j' = snd (fst (?m ! k))" and
    km: "k < length ?m"
    by auto
  from km have "?m ! k \<in> set ?m" by (rule nth_mem)
  then have mem: "((fst (fst (?m ! k)), snd (fst (?m ! k))), snd (?m ! k)) \<in> set ?m" by simp
  have ij: "i = i'" "j = j'" "w = snd (?m ! k)" using k(2) e(1) by simp_all
  have "((names ! i, names ! j), w) \<in> set ?m"
    unfolding ij e(4) e(5) by (rule mem)
  with e(2,3) ij show ?thesis
    unfolding find_edges_rows [OF fe] by blast
qed

lemma shares_target_shared:
  "shares_target hs n m \<longleftrightarrow> shared_targets hs n m \<noteq> []"
  by (auto simp: shares_target_def shared_targets_def filter_empty_conv simp del: set_node_edges)

lemma shares_target_sym: "shares_target hs n m \<longleftrightarrow> shares_target hs m n"
  by (auto simp: shares_target_def)

lemma sorted_less_nth_iff:
  "sorted_wrt (<) (xs :: 'a :: linorder list) \<Longrightarrow> i < length xs \<Longrightarrow> j < length xs \<Longrightarrow>
   xs ! i < xs ! j \<longleftrightarrow> i < j"
  by (metis linorder_neqE_nat not_less_iff_gr_or_eq sorted_wrt_iff_nth_less)

lemma overlap_graph_names_distinct:
  "overlap_graph hs = Inr (names, es) \<Longrightarrow> distinct names"
  using overlap_graph_names_sorted sorted_less_distinct by blast

lemma remove_isolated_subset: "set (remove_isolated names counts) \<subseteq> set names"
  by (auto simp: remove_isolated_def dest: set_zip_leftD)

lemma overlap_graph_names_nodes:
  "overlap_graph hs = Inr (names, es) \<Longrightarrow> set names \<subseteq> hit_node ` set hs"
  by (erule overlap_graph_Inr) (use remove_isolated_subset in fastforce)

lemma perc_val_mem:
  assumes "e \<in> set (node_edges hs n)"
  shows "\<exists>h\<in>set hs. hit_key h = (n, e) \<and> perc_val hs n e = hit_perc h"
proof -
  from assms have "\<exists>h\<in>set hs. hit_key h = (n, e)"
    by (auto simp: set_node_edges hit_key_def)
  then have "find (\<lambda>h. hit_key h = (n, e)) hs \<noteq> None"
    by (auto simp: find_None_iff)
  then obtain h where f: "find (\<lambda>h. hit_key h = (n, e)) hs = Some h"
    by blast
  then have "h \<in> set hs" "hit_key h = (n, e)"
    by (auto simp: find_Some_iff)
  with f show ?thesis
    by (auto simp: perc_val_def)
qed

lemma perc_val_bound:
  assumes "e \<in> set (node_edges hs n)" and "\<forall>h\<in>set hs. c \<le> hit_perc h"
  shows "c \<le> perc_val hs n e"
proof -
  from perc_val_mem [OF assms(1)] obtain h where "h \<in> set hs" "perc_val hs n e = hit_perc h"
    by blast
  with assms(2) show ?thesis by simp
qed

text \<open>Everything an edge of the built graph says about its two endpoints.\<close>

lemma overlap_graph_edge_facts:
  assumes "overlap_graph hs = Inr (names, es)" and "(i, j, w) \<in> set es"
  shows "i < j \<and> j < length names \<and> shared_targets hs (names ! i) (names ! j) \<noteq> [] \<and>
    w = sum_list (map (\<lambda>e. 0.5 * (perc_val hs (names ! i) e + perc_val hs (names ! j) e))
                     (shared_targets hs (names ! i) (names ! j)))"
proof -
  let ?a = "names ! i" and ?b = "names ! j"
  from overlap_graph_edge_names [OF assms] have ij: "i < length names" "j < length names"
    and mem: "((?a, ?b), w) \<in> set (merge_edges (overlap_rows hs))" by simp_all
  from mem obtain e w' where r: "(?a, ?b, e, w') \<in> set (overlap_rows hs)"
    and w: "w = pair_weight (?a, ?b) (overlap_rows hs)"
    by (auto simp: merge_edges_member)
  from r have ab: "?a \<in> hit_node ` set hs" "?b \<in> hit_node ` set hs" "?a < ?b"
      "e \<in> set (shared_targets hs ?a ?b)"
    by (simp_all only: overlap_rows_iff)
  from ab(3) ij have "i < j"
    using sorted_less_nth_iff [OF overlap_graph_names_sorted [OF assms(1)]] by blast
  moreover from ab(4) have "shared_targets hs ?a ?b \<noteq> []" by auto
  ultimately show ?thesis
    using ij w pair_weight_overlap [OF ab(1-3)] by simp
qed

text \<open>Which nodes survive edge building, and which pairs get an edge.\<close>

lemma survivors_share_target:
  assumes "overlap_graph hs = Inr (names, es)"
  shows "n \<in> set names \<longleftrightarrow>
           n \<in> hit_node ` set hs \<and> (\<exists>m\<in>hit_node ` set hs. m \<noteq> n \<and> shares_target hs n m)"
proof -
  obtain st where fe: "find_edges hs = Inr st" and nm: "names = remove_isolated (node_names hs) (ov_counts st)"
    by (rule overlap_graph_Inr [OF assms])
  have "(\<exists>(a, b, e, w)\<in>set (overlap_rows hs). a = n \<or> b = n) \<longleftrightarrow>
      (\<exists>m\<in>hit_node ` set hs. m \<noteq> n \<and> shares_target hs n m)" if n: "n \<in> hit_node ` set hs"
  proof
    assume "\<exists>(a, b, e, w)\<in>set (overlap_rows hs). a = n \<or> b = n"
    then obtain a b e w where r: "(a, b, e, w) \<in> set (overlap_rows hs)" "a = n \<or> b = n" by blast
    from r(1) have ab: "a \<in> hit_node ` set hs" "b \<in> hit_node ` set hs" "a < b"
        "e \<in> set (shared_targets hs a b)"
      by (simp_all only: overlap_rows_iff)
    then have "shares_target hs a b" by (auto simp: shares_target_shared)
    with ab r(2) show "\<exists>m\<in>hit_node ` set hs. m \<noteq> n \<and> shares_target hs n m"
      using shares_target_sym by (metis less_irrefl)
  next
    assume "\<exists>m\<in>hit_node ` set hs. m \<noteq> n \<and> shares_target hs n m"
    then obtain m where m: "m \<in> hit_node ` set hs" "m \<noteq> n" "shares_target hs n m" by blast
    show "\<exists>(a, b, e, w)\<in>set (overlap_rows hs). a = n \<or> b = n"
    proof (cases "n < m")
      case True
      from m(3) have "shared_targets hs n m \<noteq> []" by (simp add: shares_target_shared)
      then have "hd (shared_targets hs n m) \<in> set (shared_targets hs n m)" by (rule hd_in_set)
      then obtain e where "e \<in> set (shared_targets hs n m)" by blast
      with True n m(1) have "(n, m, e, 0.5 * (perc_val hs n e + perc_val hs m e)) \<in> set (overlap_rows hs)"
        by (simp only: overlap_rows_iff)
      then show ?thesis by blast
    next
      case False
      with m(2) have "m < n" by simp
      from m(3) have "shares_target hs m n" by (simp only: shares_target_sym)
      then have "shared_targets hs m n \<noteq> []" by (simp add: shares_target_shared)
      then have "hd (shared_targets hs m n) \<in> set (shared_targets hs m n)" by (rule hd_in_set)
      then obtain e where "e \<in> set (shared_targets hs m n)" by blast
      with \<open>m < n\<close> n m(1) have "(m, n, e, 0.5 * (perc_val hs m e + perc_val hs n e)) \<in> set (overlap_rows hs)"
        by (simp only: overlap_rows_iff)
      then show ?thesis by blast
    qed
  qed
  then show ?thesis
    unfolding nm find_edges_survivors [OF fe] by blast
qed

lemma sharing_nodes_joined:
  assumes "overlap_graph hs = Inr (names, es)" and "i < j" and "j < length names"
    and "shares_target hs (names ! i) (names ! j)"
  shows "\<exists>w. (i, j, w) \<in> set es"
proof -
  let ?a = "names ! i" and ?b = "names ! j"
  obtain st where fe: "find_edges hs = Inr st"
    and ix: "index_edges names (merge_edges (ov_rows st)) = Inr es"
    by (rule overlap_graph_Inr [OF assms(1)])
  let ?m = "merge_edges (ov_rows st)"
  have sorted: "sorted_wrt (<) names" and dist: "distinct names"
    using overlap_graph_names_sorted [OF assms(1)] overlap_graph_names_distinct [OF assms(1)] by simp_all
  from assms(2,3) have ab: "?a < ?b" using sorted_less_nth_iff [OF sorted] by simp
  from assms(2,3) overlap_graph_names_nodes [OF assms(1)] have
    nodes: "?a \<in> hit_node ` set hs" "?b \<in> hit_node ` set hs" by auto
  from assms(4) have "shared_targets hs ?a ?b \<noteq> []" by (simp add: shares_target_shared)
  then have "hd (shared_targets hs ?a ?b) \<in> set (shared_targets hs ?a ?b)" by (rule hd_in_set)
  then obtain e where "e \<in> set (shared_targets hs ?a ?b)" by blast
  with nodes ab have "(?a, ?b, e, 0.5 * (perc_val hs ?a e + perc_val hs ?b e)) \<in> set (overlap_rows hs)"
    by (simp only: overlap_rows_iff)
  then have "(?a, ?b, e, 0.5 * (perc_val hs ?a e + perc_val hs ?b e)) \<in> set (ov_rows st)"
    by (simp only: find_edges_rows [OF fe])
  then have "((?a, ?b), pair_weight (?a, ?b) (ov_rows st)) \<in> set ?m"
    unfolding merge_edges_member by blast
  then obtain k where k: "k < length ?m" "?m ! k = ((?a, ?b), pair_weight (?a, ?b) (ov_rows st))"
    by (auto simp: in_set_conv_nth)
  from index_edges_Inr [OF ix] have len: "length es = length ?m"
    and "\<exists>i' j'. es ! k = (i', j', snd (?m ! k)) \<and> i' < length names \<and> j' < length names \<and>
        names ! i' = fst (fst (?m ! k)) \<and> names ! j' = snd (fst (?m ! k))"
    using k(1) by blast+
  then obtain i' j' where e: "es ! k = (i', j', snd (?m ! k))" "i' < length names" "j' < length names"
       "names ! i' = ?a" "names ! j' = ?b"
    using k(2) by auto
  from e(2-5) assms(2,3) dist have "i' = i" "j' = j" by (simp_all add: nth_eq_iff_index_eq)
  with e(1) have "es ! k = (i, j, snd (?m ! k))" by simp
  moreover from k(1) len have "es ! k \<in> set es" by simp
  ultimately show ?thesis by metis
qed

lemma overlap_graph_succeeds: "\<exists>names es. overlap_graph hs = Inr (names, es)"
proof -
  obtain st where fe: "find_edges hs = Inr st" using find_edges_Inr by blast
  have "\<exists>es. index_edges (remove_isolated (node_names hs) (ov_counts st)) (merge_edges (ov_rows st)) = Inr es"
    by (rule index_edges_succeeds) (rule merged_endpoints_survive [OF fe])
  with fe show ?thesis by (auto simp: overlap_graph_def)
qed

section \<open>Properties\<close>

text \<open>
  C28. Walking the longer of the two target lists (what lines 65--69 do, against the
  spec's "iterate the shorter") gives the same state as walking node \<open>i\<close>'s list: both
  loops visit the sorted shared targets in the same order.
\<close>

theorem pair_step_driver_equiv:
  "pair_step hs names i j st = pair_step_ref hs names i j st"
proof -
  have "pair_step_ref hs names i j st =
      fold_err (add_shared hs i j (names ! i) (names ! j)) (shared_targets hs (names ! i) (names ! j)) st"
    by (simp add: pair_step_ref_def edge_step_fun fold_err_guard shared_targets_def)
  then show ?thesis by (simp add: pair_step_shared)
qed

text \<open>
  C27. The edge builder never raises: every \<open>.loc\<close> look-up of lines 76--77 and every
  \<open>node_names.index\<close> of lines 92--93 finds its key.
\<close>

theorem overlap_graph_total: "\<exists>names es. overlap_graph hs = Inr (names, es)"
  by (rule overlap_graph_succeeds)

text \<open>
  C29. After the double loop, \<open>node_num_edges[k]\<close> is the number of rows of
  \<open>edges_all\<close> that have node \<open>k\<close> as an endpoint.
\<close>

theorem find_edges_counts_correct:
  assumes "find_edges hs = Inr st" and "k < length (node_names hs)"
  shows "ov_counts st ! k = rows_involving (node_names hs ! k) (ov_rows st)"
  using find_edges_counts [OF assms(1)] assms(2) by (simp add: counts_inv_def)

theorem find_edges_counts_correct_witness:
  "ov_counts \<lparr>ov_rows = [(''q1'', ''q2'', ''t'', 0.975)], ov_counts = [1, 1]\<rparr> ! 0 =
     rows_involving ''q1'' [(''q1'', ''q2'', ''t'', 0.975)]"
proof -
  let ?hs = "[\<lparr>hit_node = ''q1'', hit_edge = ''t'', hit_bitscore = 100, hit_top = 100, hit_perc = 1\<rparr>,
     \<lparr>hit_node = ''q2'', hit_edge = ''t'', hit_bitscore = 95, hit_top = 100, hit_perc = 0.95::real\<rparr>]"
  have run: "find_edges ?hs = Inr \<lparr>ov_rows = [(''q1'', ''q2'', ''t'', 0.975)], ov_counts = [1, 1]\<rparr>"
    by (simp add: overlap_eval)
  have "node_names ?hs = [''q1'', ''q2'']" by (simp add: node_names_def)
  with find_edges_counts_correct [OF run, of 0] show ?thesis by simp
qed

text \<open>
  C31. A node survives edge building exactly when it shares a target with another node
  (spec scenario C: a query sharing no target is absent from the graph).
\<close>

theorem overlap_graph_survivors:
  assumes "overlap_graph hs = Inr (names, es)"
  shows "n \<in> set names \<longleftrightarrow>
           n \<in> hit_node ` set hs \<and> (\<exists>m\<in>hit_node ` set hs. m \<noteq> n \<and> shares_target hs n m)"
  using assms by (rule survivors_share_target)

theorem overlap_graph_survivors_witness:
  "''q1'' \<in> set [''q1'', ''q2''] \<longleftrightarrow>
     ''q1'' \<in> hit_node ` set [\<lparr>hit_node = ''q1'', hit_edge = ''t'', hit_bitscore = 100, hit_top = 100, hit_perc = 1\<rparr>,
        \<lparr>hit_node = ''q2'', hit_edge = ''t'', hit_bitscore = 95, hit_top = 100, hit_perc = 0.95::real\<rparr>] \<and>
     (\<exists>m\<in>hit_node ` set [\<lparr>hit_node = ''q1'', hit_edge = ''t'', hit_bitscore = 100, hit_top = 100, hit_perc = 1\<rparr>,
        \<lparr>hit_node = ''q2'', hit_edge = ''t'', hit_bitscore = 95, hit_top = 100, hit_perc = 0.95::real\<rparr>].
        m \<noteq> ''q1'' \<and> shares_target [\<lparr>hit_node = ''q1'', hit_edge = ''t'', hit_bitscore = 100, hit_top = 100, hit_perc = 1\<rparr>,
        \<lparr>hit_node = ''q2'', hit_edge = ''t'', hit_bitscore = 95, hit_top = 100, hit_perc = 0.95::real\<rparr>] ''q1'' m)"
proof -
  let ?hs = "[\<lparr>hit_node = ''q1'', hit_edge = ''t'', hit_bitscore = 100, hit_top = 100, hit_perc = 1\<rparr>,
     \<lparr>hit_node = ''q2'', hit_edge = ''t'', hit_bitscore = 95, hit_top = 100, hit_perc = 0.95::real\<rparr>]"
  have run: "overlap_graph ?hs = Inr ([''q1'', ''q2''], [(0, 1, 0.975)])"
    by (simp add: overlap_eval)
  show ?thesis by (rule overlap_graph_survivors [OF run])
qed

text \<open>
  C25. Every edge of the built graph joins positions \<open>i < j\<close> of two nodes that share
  a target, and its weight is the sum, over their shared targets, of the mean of the two
  relative scores (the spec's OverlapEdge weight).
\<close>

theorem overlap_graph_edge_spec:
  assumes "overlap_graph hs = Inr (names, es)" and "(i, j, w) \<in> set es"
  shows "i < j \<and> j < length names \<and> shares_target hs (names ! i) (names ! j) \<and>
    w = sum_list (map (\<lambda>e. 0.5 * (perc_val hs (names ! i) e + perc_val hs (names ! j) e))
                     (shared_targets hs (names ! i) (names ! j)))"
  using overlap_graph_edge_facts [OF assms] by (simp add: shares_target_shared)

theorem overlap_graph_edge_spec_witness:
  "let hs = [\<lparr>hit_node = ''q1'', hit_edge = ''t'', hit_bitscore = 100, hit_top = 100, hit_perc = 1\<rparr>,
             \<lparr>hit_node = ''q2'', hit_edge = ''t'', hit_bitscore = 95, hit_top = 100, hit_perc = 0.95::real\<rparr>]
   in shares_target hs ''q1'' ''q2'' \<and>
      (0.975::real) = sum_list (map (\<lambda>e. 0.5 * (perc_val hs ''q1'' e + perc_val hs ''q2'' e))
                                    (shared_targets hs ''q1'' ''q2''))"
proof -
  let ?hs = "[\<lparr>hit_node = ''q1'', hit_edge = ''t'', hit_bitscore = 100, hit_top = 100, hit_perc = 1\<rparr>,
     \<lparr>hit_node = ''q2'', hit_edge = ''t'', hit_bitscore = 95, hit_top = 100, hit_perc = 0.95::real\<rparr>]"
  have run: "overlap_graph ?hs = Inr ([''q1'', ''q2''], [(0, 1, 0.975)])"
    by (simp add: overlap_eval)
  have "(0::nat, 1::nat, 0.975::real) \<in> set [(0, 1, 0.975)]"
    by simp
  from overlap_graph_edge_spec [OF run this] show ?thesis
    by simp
qed

text \<open>
  C26. Conversely, every two surviving nodes that share a target are joined by an edge.
\<close>

theorem overlap_graph_edge_complete:
  assumes "overlap_graph hs = Inr (names, es)" and "i < j" and "j < length names"
    and "shares_target hs (names ! i) (names ! j)"
  shows "\<exists>w. (i, j, w) \<in> set es"
  using assms by (rule sharing_nodes_joined)

theorem overlap_graph_edge_complete_witness:
  "\<exists>w. (0::nat, 1::nat, w) \<in> set [(0, 1, 0.975::real)]"
proof -
  let ?hs = "[\<lparr>hit_node = ''q1'', hit_edge = ''t'', hit_bitscore = 100, hit_top = 100, hit_perc = 1\<rparr>,
     \<lparr>hit_node = ''q2'', hit_edge = ''t'', hit_bitscore = 95, hit_top = 100, hit_perc = 0.95::real\<rparr>]"
  have run: "overlap_graph ?hs = Inr ([''q1'', ''q2''], [(0, 1, 0.975)])"
    by (simp add: overlap_eval)
  have sh: "shares_target ?hs ([''q1'', ''q2''] ! 0) ([''q1'', ''q2''] ! 1)"
    by (simp add: shares_target_def node_edges_def)
  show ?thesis
    using overlap_graph_edge_complete [OF run _ _ sh] by simp
qed

text \<open>
  With relative scores of at least 0.9 (what HitFilter keeps), every edge weighs at
  least 0.9; in particular every weight is positive.
\<close>

theorem overlap_graph_weight_bound:
  assumes "overlap_graph hs = Inr (names, es)" and "\<forall>h\<in>set hs. perc_threshold \<le> hit_perc h"
    and "(i, j, w) \<in> set es"
  shows "perc_threshold \<le> w"
proof -
  let ?a = "names ! i" and ?b = "names ! j"
  let ?ws = "map (\<lambda>e. 0.5 * (perc_val hs ?a e + perc_val hs ?b e)) (shared_targets hs ?a ?b)"
  from overlap_graph_edge_facts [OF assms(1,3)] have ne: "?ws \<noteq> []" and w: "w = sum_list ?ws"
    by simp_all
  have "\<forall>x\<in>set ?ws. perc_threshold \<le> x"
  proof
    fix x assume "x \<in> set ?ws"
    then obtain e where x: "x = 0.5 * (perc_val hs ?a e + perc_val hs ?b e)"
      and e: "e \<in> set (shared_targets hs ?a ?b)" by auto
    from shared_targets_mem [OF e] have "e \<in> set (node_edges hs ?a)" "e \<in> set (node_edges hs ?b)"
      by simp_all
    then have "perc_threshold \<le> perc_val hs ?a e" "perc_threshold \<le> perc_val hs ?b e"
      using perc_val_bound assms(2) by blast+
    with x show "perc_threshold \<le> x" by simp
  qed
  moreover have "0 \<le> perc_threshold" by (simp add: perc_threshold_def)
  ultimately show ?thesis
    using sum_list_ge_bound [OF ne] w by blast
qed

theorem overlap_graph_weight_bound_witness:
  "perc_threshold \<le> (0.975::real)"
proof -
  let ?hs = "[\<lparr>hit_node = ''q1'', hit_edge = ''t'', hit_bitscore = 100, hit_top = 100, hit_perc = 1\<rparr>,
     \<lparr>hit_node = ''q2'', hit_edge = ''t'', hit_bitscore = 95, hit_top = 100, hit_perc = 0.95::real\<rparr>]"
  have run: "overlap_graph ?hs = Inr ([''q1'', ''q2''], [(0, 1, 0.975)])"
    by (simp add: overlap_eval)
  have percs: "\<forall>h\<in>set ?hs. perc_threshold \<le> hit_perc h"
    by (simp add: perc_threshold_def)
  have "(0::nat, 1::nat, 0.975::real) \<in> set [(0, 1, 0.975)]"
    by simp
  from overlap_graph_weight_bound [OF run percs this] show ?thesis .
qed

text \<open>
  Spec scenario A: two queries sharing one target with relative scores 1.0 and 0.95
  give one edge of weight 0.975.
\<close>

theorem overlap_graph_scenario_a:
  "overlap_graph
     [\<lparr>hit_node = ''q1'', hit_edge = ''t'', hit_bitscore = 100, hit_top = 100, hit_perc = 1\<rparr>,
      \<lparr>hit_node = ''q2'', hit_edge = ''t'', hit_bitscore = 95, hit_top = 100, hit_perc = 0.95\<rparr>]
   = Inr ([''q1'', ''q2''], [(0, 1, 0.975)])"
  by (simp add: overlap_eval)

end
