(* ===== verification/Graph.thy ===== *)
theory Graph
  imports Overlap
begin

text \<open>
  The in-memory graph of \<open>src/src/blast_to_graph.py\<close> (lines 98--122, 165--181) and
  the igraph operations the pipeline calls on it. An igraph graph is a record of a
  vertex list and an edge list; a vertex or edge attribute that has not been set is
  \<open>None\<close>. Undirected igraph edges report their smaller endpoint as \<open>source\<close>, so every
  edge built here is normalised by \<open>ig_edge\<close>. The library operations are modelled
  from igraph's documented behaviour: \<open>neighbors\<close> (sorted, a loop counted twice),
  \<open>connected_components(mode='weak')\<close> (clusters listed by smallest member, each
  sorted), \<open>subgraph\<close> (induced, vertices in the order given, edges in their order),
  \<open>contract_vertices\<close> (\<open>max(mapping) + 1\<close> vertices, the attributes of each group
  combined) and \<open>simplify\<close> (loops dropped, parallel edges merged in key order).
\<close>

section \<open>Graph data\<close>

record vertex =
  v_name :: string
  v_weight :: nat
  v_subgraph :: "nat option"
  v_x :: "real option"
  v_y :: "real option"
  v_community :: "nat option"
  v_node :: "nat option"

record edge =
  e_src :: nat
  e_tgt :: nat
  e_weight :: real
  e_subgraph :: "nat option"
  e_community :: "nat option"

record graph =
  g_vs :: "vertex list"
  g_es :: "edge list"

abbreviation nverts :: "graph \<Rightarrow> nat" where
  "nverts g \<equiv> length (g_vs g)"

text \<open>An undirected igraph edge between \<open>a\<close> and \<open>b\<close>, its smaller end as source.\<close>

definition ig_edge :: "nat \<Rightarrow> nat \<Rightarrow> real \<Rightarrow> nat option \<Rightarrow> nat option \<Rightarrow> edge" where
  "ig_edge a b w s c =
     \<lparr>e_src = min a b, e_tgt = max a b, e_weight = w, e_subgraph = s, e_community = c\<rparr>"

definition ekey :: "edge \<Rightarrow> nat \<times> nat" where
  "ekey e = (e_src e, e_tgt e)"

text \<open>Every edge endpoint names a vertex (what igraph checks when edges are added).\<close>

definition wf_graph :: "graph \<Rightarrow> bool" where
  "wf_graph g \<longleftrightarrow> (\<forall>e\<in>set (g_es g). e_src e < nverts g \<and> e_tgt e < nverts g)"

section \<open>GraphAssembler (lines 98--107)\<close>

text \<open>
  \<open>graph.add_vertices(len(node_names))\<close>, \<open>graph.vs["name"] = node_names\<close>,
  \<open>graph.vs["weight"] = num_vertices * [1]\<close>: a vertex per surviving node.
\<close>

definition new_vertex :: "name \<Rightarrow> vertex" where
  "new_vertex n = \<lparr>v_name = n, v_weight = 1, v_subgraph = None, v_x = None, v_y = None,
                   v_community = None, v_node = None\<rparr>"

text \<open>
  \<open>graph.add_edges(...)\<close> followed by \<open>graph.es["weight"] = edges_merged["weight"]\<close>;
  igraph refuses an endpoint that is not a vertex.
\<close>

definition assemble :: "name list \<Rightarrow> (nat \<times> nat \<times> real) list \<Rightarrow> py_error + graph" where
  "assemble names es =
     (if \<exists>(i, j, w)\<in>set es. length names \<le> i \<or> length names \<le> j then Inl ValueError
      else Inr \<lparr>g_vs = map new_vertex names,
                g_es = map (\<lambda>(i, j, w). ig_edge i j w None None) es\<rparr>)"

section \<open>igraph operations called by the pipeline\<close>

text \<open>\<open>Graph.neighbors(v)\<close>: the adjacent vertices, sorted; a loop lists \<open>v\<close> twice.\<close>

definition neighbors :: "graph \<Rightarrow> nat \<Rightarrow> nat list" where
  "neighbors g v =
     sort (concat (map (\<lambda>e. (if e_src e = v then [e_tgt e] else []) @
                            (if e_tgt e = v then [e_src e] else [])) (g_es g)))"

text \<open>One breadth step of the weak-component search: the set and its neighbours.\<close>

definition expand :: "graph \<Rightarrow> nat list \<Rightarrow> nat list" where
  "expand g vs = sort (remdups (vs @ concat (map (neighbors g) vs)))"

text \<open>
  The search is run with fuel: it stops at a fixed point, and \<open>nverts g\<close> steps are
  always enough (\<open>comp_of_closed\<close>), since each step that is not a fixed point adds a
  vertex.
\<close>

fun reach :: "nat \<Rightarrow> graph \<Rightarrow> nat list \<Rightarrow> nat list" where
  "reach 0 g vs = vs"
| "reach (Suc k) g vs = (let vs' = expand g vs in if vs' = vs then vs else reach k g vs')"

definition comp_of :: "graph \<Rightarrow> nat \<Rightarrow> nat list" where
  "comp_of g v = reach (nverts g) g [v]"

text \<open>
  \<open>graph.connected_components(mode='weak')\<close> (line 112): one sorted vertex list per
  component, listed in the order of their smallest vertices.
\<close>

definition connected_components :: "graph \<Rightarrow> nat list list" where
  "connected_components g = map (comp_of g) (filter (\<lambda>v. hd (comp_of g v) = v) [0..<nverts g])"

text \<open>Position of a vertex in a vertex list (igraph's renumbering of a subgraph).\<close>

definition pos_of :: "nat list \<Rightarrow> nat \<Rightarrow> nat" where
  "pos_of vs v = length (takeWhile (\<lambda>u. u \<noteq> v) vs)"

text \<open>\<open>graph.subgraph(component)\<close> (line 118): the induced subgraph, renumbered.\<close>

definition induced_subgraph :: "graph \<Rightarrow> nat list \<Rightarrow> graph" where
  "induced_subgraph g vs =
     \<lparr>g_vs = map (\<lambda>v. g_vs g ! v) vs,
      g_es = map (\<lambda>e. ig_edge (pos_of vs (e_src e)) (pos_of vs (e_tgt e)) (e_weight e)
                             (e_subgraph e) (e_community e))
                 (filter (\<lambda>e. e_src e \<in> set vs \<and> e_tgt e \<in> set vs) (g_es g))\<rparr>"

text \<open>igraph's \<open>"first"\<close> combiner on an attribute that may be unset.\<close>

definition first_attr :: "'a option list \<Rightarrow> 'a option" where
  "first_attr xs = (case first_of xs of None \<Rightarrow> None | Some v \<Rightarrow> v)"

text \<open>igraph's \<open>"mean"\<close> combiner on an attribute: NaN (\<open>None\<close>) if a value is unset.\<close>

definition mean_attr :: "real option list \<Rightarrow> real option" where
  "mean_attr xs = (case those xs of None \<Rightarrow> None | Some rs \<Rightarrow> mean rs)"

text \<open>
  The \<open>combine_attrs\<close> of lines 165--172, applied to the vertices merged into one:
  mean position, summed weight, first community and subgraph, and the names joined
  by \<open>","\<close> after sorting. The \<open>node\<close> attribute has no combiner and is dropped.
\<close>

definition combine_vertices :: "vertex list \<Rightarrow> vertex" where
  "combine_vertices ms =
     \<lparr>v_name = join_str '','' (sort (map v_name ms)),
      v_weight = sum_list (map v_weight ms),
      v_subgraph = first_attr (map v_subgraph ms),
      v_x = mean_attr (map v_x ms),
      v_y = mean_attr (map v_y ms),
      v_community = first_attr (map v_community ms),
      v_node = None\<rparr>"

definition members :: "nat list \<Rightarrow> nat \<Rightarrow> nat list" where
  "members m k = filter (\<lambda>v. m ! v = k) [0..<length m]"

text \<open>
  \<open>contract_vertices(membership, combine_attrs)\<close>: vertex \<open>k\<close> of the result, for
  \<open>k \<le> max(membership)\<close>, combines the vertices mapped to \<open>k\<close>, in vertex order (none
  at all for an index no vertex is mapped to); every edge is kept with its endpoints
  mapped. A mapping shorter than the vertex list is refused.
\<close>

definition contract_vertices :: "nat list \<Rightarrow> graph \<Rightarrow> py_error + graph" where
  "contract_vertices m g =
     (if length m \<noteq> nverts g then Inl ValueError
      else Inr \<lparr>g_vs = map (\<lambda>k. combine_vertices (map (\<lambda>v. g_vs g ! v) (members m k)))
                          [0..<(if m = [] then 0 else Suc (Max (set m)))],
                g_es = map (\<lambda>e. ig_edge (m ! e_src e) (m ! e_tgt e) (e_weight e)
                                        (e_subgraph e) (e_community e)) (g_es g)\<rparr>)"

text \<open>
  \<open>simplify(combine_edges=...)\<close> (lines 175--179): loops are dropped and the edges
  between one pair merged, in the order of their pair, with summed weight and the
  first subgraph and community.
\<close>

definition simplify :: "graph \<Rightarrow> graph" where
  "simplify g =
     (let es = filter (\<lambda>e. e_src e \<noteq> e_tgt e) (g_es g) in
      g\<lparr>g_es := map (\<lambda>(a, b). let grp = filter (\<lambda>e. ekey e = (a, b)) es in
                    \<lparr>e_src = a, e_tgt = b, e_weight = sum_list (map e_weight grp),
                     e_subgraph = first_attr (map e_subgraph grp),
                     e_community = first_attr (map e_community grp)\<rparr>)
                  (sort (remdups (map ekey es)))\<rparr>)"

section \<open>Reference semantics\<close>

text \<open>The adjacency of an undirected graph, against which the component search is proved.\<close>

definition adj :: "graph \<Rightarrow> (nat \<times> nat) set" where
  "adj g = {(u, v). \<exists>e\<in>set (g_es g). (e_src e = u \<and> e_tgt e = v) \<or> (e_tgt e = u \<and> e_src e = v)}"

section \<open>Lemmas: the weak-component search\<close>

lemma adj_sym: "sym (adj g)"
  by (auto simp: adj_def sym_def)

lemma rtrancl_adj_sym: "(u, v) \<in> (adj g)\<^sup>* \<Longrightarrow> (v, u) \<in> (adj g)\<^sup>*"
  using sym_rtrancl [OF adj_sym] by (auto simp: sym_def)

lemma set_neighbors: "u \<in> set (neighbors g v) \<longleftrightarrow> (v, u) \<in> adj g"
  by (auto simp: neighbors_def adj_def split: if_splits)

lemma set_expand: "set (expand g vs) = set vs \<union> {u. \<exists>v\<in>set vs. (v, u) \<in> adj g}"
  by (auto simp: expand_def set_neighbors)

lemma expand_sorted: "sorted_wrt (<) (expand g vs)"
  by (simp add: expand_def)

lemma reach_sorted: "sorted_wrt (<) vs \<Longrightarrow> sorted_wrt (<) (reach k g vs)"
  by (induction k arbitrary: vs) (simp_all add: Let_def expand_sorted)

lemma reach_mono: "set vs \<subseteq> set (reach k g vs)"
proof (induction k arbitrary: vs)
  case 0
  then show ?case by simp
next
  case (Suc k)
  have "set vs \<subseteq> set (expand g vs)" by (simp add: set_expand)
  with Suc.IH [of "expand g vs"] show ?case by (auto simp: Let_def)
qed

lemma reach_reachable:
  "set vs \<subseteq> (adj g)\<^sup>* `` {v} \<Longrightarrow> set (reach k g vs) \<subseteq> (adj g)\<^sup>* `` {v}"
proof (induction k arbitrary: vs)
  case 0
  then show ?case by simp
next
  case (Suc k)
  have "set (expand g vs) \<subseteq> (adj g)\<^sup>* `` {v}"
    using Suc.prems by (auto simp: set_expand intro: rtrancl_into_rtrancl)
  with Suc.IH Suc.prems show ?case by (simp add: Let_def)
qed

lemma adj_wf: "wf_graph g \<Longrightarrow> (u, v) \<in> adj g \<Longrightarrow> u < nverts g \<and> v < nverts g"
  by (auto simp: adj_def wf_graph_def)

lemma expand_bounded:
  "wf_graph g \<Longrightarrow> set vs \<subseteq> {..<nverts g} \<Longrightarrow> set (expand g vs) \<subseteq> {..<nverts g}"
  by (auto simp: set_expand dest: adj_wf)

lemma sorted_less_eq_set:
  "sorted_wrt (<) (xs :: nat list) \<Longrightarrow> sorted_wrt (<) ys \<Longrightarrow> set xs = set ys \<Longrightarrow> xs = ys"
  by (simp add: sorted_less_distinct sorted_distinct_set_unique)

lemma reach_fixpoint:
  assumes "wf_graph g" and "set vs \<subseteq> {..<nverts g}" and "sorted_wrt (<) vs"
    and "nverts g \<le> length vs + k"
  shows "expand g (reach k g vs) = reach k g vs"
  using assms(2-4)
proof (induction k arbitrary: vs)
  case 0
  from "0.prems" have "distinct vs" by (simp add: sorted_less_distinct)
  then have "card (set vs) = length vs" by (simp add: distinct_card)
  with "0.prems"(1,3) have "set vs = {..<nverts g}"
    by (metis add_0_right card_lessThan card_seteq finite_lessThan)
  with expand_bounded [OF assms(1)] have "set (expand g vs) = set vs"
    by (auto simp: set_expand)
  with "0.prems"(2) show ?case
    by (simp add: sorted_less_eq_set expand_sorted)
next
  case (Suc k)
  show ?case
  proof (cases "expand g vs = vs")
    case True
    then show ?thesis by simp
  next
    case False
    have sub: "set vs \<subseteq> set (expand g vs)" by (simp add: set_expand)
    have "set vs \<noteq> set (expand g vs)"
      using False Suc.prems(2) sorted_less_eq_set [OF Suc.prems(2) expand_sorted] by metis
    with sub have "set vs \<subset> set (expand g vs)" by blast
    then have "card (set vs) < card (set (expand g vs))" by (simp add: psubset_card_mono)
    moreover have "distinct vs" "distinct (expand g vs)"
      using Suc.prems(2) expand_sorted [of g vs] by (simp_all add: sorted_less_distinct)
    ultimately have "length vs < length (expand g vs)" by (simp add: distinct_card)
    with Suc.prems have "nverts g \<le> length (expand g vs) + k" by simp
    moreover have "set (expand g vs) \<subseteq> {..<nverts g}"
      using expand_bounded [OF assms(1) Suc.prems(1)] .
    ultimately have "expand g (reach k g (expand g vs)) = reach k g (expand g vs)"
      using Suc.IH expand_sorted by blast
    with False show ?thesis by (simp add: Let_def)
  qed
qed

lemma closed_rtrancl:
  assumes "expand g vs = vs" and "v \<in> set vs"
  shows "(adj g)\<^sup>* `` {v} \<subseteq> set vs"
proof
  fix u assume "u \<in> (adj g)\<^sup>* `` {v}"
  then have "(v, u) \<in> (adj g)\<^sup>*" by simp
  then show "u \<in> set vs"
  proof induction
    case base
    then show ?case using assms(2) .
  next
    case (step y z)
    then have "z \<in> set (expand g vs)" by (auto simp: set_expand)
    with assms(1) show ?case by simp
  qed
qed

lemma comp_of_closed:
  "wf_graph g \<Longrightarrow> v < nverts g \<Longrightarrow> expand g (comp_of g v) = comp_of g v"
  unfolding comp_of_def by (rule reach_fixpoint) auto

lemma set_comp_of:
  assumes "wf_graph g" and "v < nverts g"
  shows "set (comp_of g v) = (adj g)\<^sup>* `` {v}"
proof
  show "set (comp_of g v) \<subseteq> (adj g)\<^sup>* `` {v}"
    unfolding comp_of_def by (rule reach_reachable) simp
  have "v \<in> set (comp_of g v)"
    using reach_mono [of "[v]"] by (auto simp: comp_of_def)
  then show "(adj g)\<^sup>* `` {v} \<subseteq> set (comp_of g v)"
    by (rule closed_rtrancl [OF comp_of_closed [OF assms]])
qed

lemma comp_of_sorted: "sorted_wrt (<) (comp_of g v)"
  by (simp add: comp_of_def reach_sorted)

lemma comp_of_mem: "v \<in> set (comp_of g v)"
  using reach_mono [of "[v]"] by (auto simp: comp_of_def)

lemma reach_stable: "expand g vs = vs \<Longrightarrow> reach k g vs = vs"
  by (cases k) (simp_all add: Let_def)

lemma reach_add: "reach (a + b) g vs = reach b g (reach a g vs)"
  by (induction a arbitrary: vs) (simp_all add: Let_def reach_stable)

lemma comp_of_eq:
  assumes "wf_graph g" and "u < nverts g" and "v < nverts g" and "(u, v) \<in> (adj g)\<^sup>*"
  shows "comp_of g u = comp_of g v"
proof (rule sorted_less_eq_set [OF comp_of_sorted comp_of_sorted])
  from assms(4) have "(v, u) \<in> (adj g)\<^sup>*" by (rule rtrancl_adj_sym)
  with assms(4) show "set (comp_of g u) = set (comp_of g v)"
    by (auto simp: set_comp_of [OF assms(1,2)] set_comp_of [OF assms(1,3)]
             intro: rtrancl_trans)
qed

lemma comp_of_bounded:
  "wf_graph g \<Longrightarrow> v < nverts g \<Longrightarrow> w \<in> set (comp_of g v) \<Longrightarrow> w < nverts g"
  by (auto simp: set_comp_of elim: rtranclE dest: adj_wf)

lemma comp_of_member_eq:
  assumes "wf_graph g" and "v < nverts g" and "w \<in> set (comp_of g v)"
  shows "comp_of g w = comp_of g v"
proof -
  from assms have "(v, w) \<in> (adj g)\<^sup>*" by (simp add: set_comp_of)
  then have "(w, v) \<in> (adj g)\<^sup>*" by (rule rtrancl_adj_sym)
  moreover have "w < nverts g" by (rule comp_of_bounded [OF assms])
  ultimately show ?thesis using comp_of_eq [OF assms(1) _ assms(2)] by blast
qed

text \<open>The smallest vertex of a component is its representative.\<close>

lemma comp_of_rep:
  assumes "wf_graph g" and "v < nverts g"
  defines "r \<equiv> hd (comp_of g v)"
  shows "r < nverts g \<and> comp_of g r = comp_of g v \<and> hd (comp_of g r) = r"
proof -
  have "comp_of g v \<noteq> []" using comp_of_mem [of v g] by auto
  then have r: "r \<in> set (comp_of g v)" by (simp add: r_def)
  have eq: "comp_of g r = comp_of g v" by (rule comp_of_member_eq [OF assms(1,2) r])
  have "r < nverts g" by (rule comp_of_bounded [OF assms(1,2) r])
  with eq show ?thesis by (simp add: r_def)
qed

lemma set_connected_components:
  assumes "wf_graph g"
  shows "set (connected_components g) = comp_of g ` {..<nverts g}"
proof
  show "set (connected_components g) \<subseteq> comp_of g ` {..<nverts g}"
    by (auto simp: connected_components_def)
  show "comp_of g ` {..<nverts g} \<subseteq> set (connected_components g)"
  proof
    fix c assume "c \<in> comp_of g ` {..<nverts g}"
    then obtain v where v: "v < nverts g" "c = comp_of g v" by auto
    with comp_of_rep [OF assms v(1)] show "c \<in> set (connected_components g)"
      unfolding connected_components_def by (auto intro!: image_eqI [where x = "hd (comp_of g v)"])
  qed
qed

lemma components_disjoint:
  assumes "wf_graph g" and "c1 \<in> set (connected_components g)" and "c2 \<in> set (connected_components g)"
    and "w \<in> set c1" and "w \<in> set c2"
  shows "c1 = c2"
proof -
  from assms(2,3) obtain v1 v2 where "v1 < nverts g" "c1 = comp_of g v1" "v2 < nverts g" "c2 = comp_of g v2"
    by (auto simp: set_connected_components [OF assms(1)])
  then have "comp_of g w = c1" "comp_of g w = c2"
    using comp_of_member_eq [OF assms(1), of v1 w] comp_of_member_eq [OF assms(1), of v2 w] assms(4,5)
    by blast+
  then show ?thesis by simp
qed

lemma components_distinct: "distinct (connected_components g)"
proof -
  have "inj_on (comp_of g) (set (filter (\<lambda>v. hd (comp_of g v) = v) [0..<nverts g]))"
  proof (rule inj_onI)
    fix x y
    assume x: "x \<in> set (filter (\<lambda>v. hd (comp_of g v) = v) [0..<nverts g])"
      and y: "y \<in> set (filter (\<lambda>v. hd (comp_of g v) = v) [0..<nverts g])"
      and eq: "comp_of g x = comp_of g y"
    from x have "hd (comp_of g x) = x" by simp
    moreover from y have "hd (comp_of g y) = y" by simp
    ultimately show "x = y" using eq by metis
  qed
  then show ?thesis by (simp add: connected_components_def distinct_map)
qed

lemma components_cover:
  assumes "wf_graph g"
  shows "distinct (concat (connected_components g)) \<and> set (concat (connected_components g)) = {..<nverts g}"
proof
  show "distinct (concat (connected_components g))"
  proof (rule distinct_concat [OF components_distinct])
    show "\<And>ys. ys \<in> set (connected_components g) \<Longrightarrow> distinct ys"
      using comp_of_sorted by (auto simp: connected_components_def sorted_less_distinct)
    show "\<And>ys zs. ys \<in> set (connected_components g) \<Longrightarrow> zs \<in> set (connected_components g) \<Longrightarrow>
        ys \<noteq> zs \<Longrightarrow> set ys \<inter> set zs = {}"
      using components_disjoint [OF assms] by blast
  qed
  show "set (concat (connected_components g)) = {..<nverts g}"
    using comp_of_mem comp_of_bounded [OF assms]
    by (fastforce simp: set_connected_components [OF assms])
qed

lemma components_are_classes:
  assumes "wf_graph g" and "c \<in> set (connected_components g)" and "u \<in> set c"
  shows "set c = (adj g)\<^sup>* `` {u}"
proof -
  from assms(2) obtain v where v: "v < nverts g" "c = comp_of g v"
    by (auto simp: set_connected_components [OF assms(1)])
  with assms(1,3) have "comp_of g u = c" "u < nverts g"
    using comp_of_member_eq [OF assms(1) v(1)] comp_of_bounded [OF assms(1) v(1)] by simp_all
  then show ?thesis using set_comp_of [OF assms(1)] by metis
qed


section \<open>Lemmas: the assembled graph\<close>

lemma overlap_edges_bounded:
  assumes "overlap_graph hs = Inr (names, es)"
  shows "\<not> (\<exists>(i, j, w)\<in>set es. length names \<le> i \<or> length names \<le> j)"
proof
  assume "\<exists>(i, j, w)\<in>set es. length names \<le> i \<or> length names \<le> j"
  then obtain i j w where e: "(i, j, w) \<in> set es" and out: "length names \<le> i \<or> length names \<le> j"
    by blast
  from overlap_graph_edge_facts [OF assms e] have "i < j" "j < length names" by simp_all
  with out show False by simp
qed

lemma assemble_Inr:
  "overlap_graph hs = Inr (names, es) \<Longrightarrow>
     assemble names es = Inr \<lparr>g_vs = map new_vertex names, g_es = map (\<lambda>(i, j, w). ig_edge i j w None None) es\<rparr>"
  unfolding assemble_def using overlap_edges_bounded by (simp only: if_False)

lemma assembled_wf:
  assumes "overlap_graph hs = Inr (names, es)"
  shows "wf_graph \<lparr>g_vs = map new_vertex names, g_es = map (\<lambda>(i, j, w). ig_edge i j w None None) es\<rparr>"
  unfolding wf_graph_def
proof
  fix e assume "e \<in> set (g_es \<lparr>g_vs = map new_vertex names, g_es = map (\<lambda>(i, j, w). ig_edge i j w None None) es\<rparr>)"
  then obtain i j w where ij: "(i, j, w) \<in> set es" and e: "e = ig_edge i j w None None" by auto
  from overlap_graph_edge_facts [OF assms ij] have "i < j" "j < length names" by simp_all
  with e show "e_src e < nverts \<lparr>g_vs = map new_vertex names, g_es = map (\<lambda>(i, j, w). ig_edge i j w None None) es\<rparr> \<and>
      e_tgt e < nverts \<lparr>g_vs = map new_vertex names, g_es = map (\<lambda>(i, j, w). ig_edge i j w None None) es\<rparr>"
    by (simp add: ig_edge_def)
qed

lemma ig_edge_adj:
  assumes "ig_edge i j w s c \<in> set (g_es g)"
  shows "(i, j) \<in> adj g"
proof (cases "i \<le> j")
  case True
  then have "e_src (ig_edge i j w s c) = i \<and> e_tgt (ig_edge i j w s c) = j" by (simp add: ig_edge_def)
  with assms show ?thesis unfolding adj_def by blast
next
  case False
  then have "e_tgt (ig_edge i j w s c) = i \<and> e_src (ig_edge i j w s c) = j" by (simp add: ig_edge_def)
  with assms show ?thesis unfolding adj_def by blast
qed

lemma ig_edge_neighbors:
  "ig_edge i j w s c \<in> set (g_es g) \<Longrightarrow> j \<in> set (neighbors g i) \<and> i \<in> set (neighbors g j)"
  using ig_edge_adj adj_sym by (simp add: set_neighbors sym_def)

lemma assembled_degree:
  assumes "overlap_graph hs = Inr (names, es)" and "v < length names"
  defines "g \<equiv> \<lparr>g_vs = map new_vertex names, g_es = map (\<lambda>(i, j, w). ig_edge i j w None None) es\<rparr>"
  shows "neighbors g v \<noteq> []"
proof -
  let ?n = "names ! v"
  from assms(2) have "?n \<in> set names" by simp
  then have "?n \<in> hit_node ` set hs \<and> (\<exists>m\<in>hit_node ` set hs. m \<noteq> ?n \<and> shares_target hs ?n m)"
    by (rule survivors_share_target [OF assms(1), THEN iffD1])
  then obtain m where
    m: "m \<in> hit_node ` set hs" "m \<noteq> ?n" "shares_target hs ?n m" and n: "?n \<in> hit_node ` set hs"
    by blast
  from m(3) have m': "shares_target hs m ?n" by (simp only: shares_target_sym)
  from m(2) n m' have "\<exists>k\<in>hit_node ` set hs. k \<noteq> m \<and> shares_target hs m k"
    by (intro bexI [of _ "?n"]) auto
  with m(1) have "m \<in> hit_node ` set hs \<and> (\<exists>k\<in>hit_node ` set hs. k \<noteq> m \<and> shares_target hs m k)"
    by (rule conjI)
  then have "m \<in> set names"
    by (rule survivors_share_target [OF assms(1), THEN iffD2])
  then obtain j where j: "j < length names" "names ! j = m" by (auto simp: in_set_conv_nth)
  with m(2) have "j \<noteq> v" by auto
  have "\<exists>w. ig_edge v j w None None \<in> set (g_es g)"
  proof (cases "v < j")
    case True
    from m(3) j(2) have "shares_target hs (names ! v) (names ! j)" by simp
    from sharing_nodes_joined [OF assms(1) True j(1) this] obtain w where "(v, j, w) \<in> set es" ..
    then have "ig_edge v j w None None \<in> set (g_es g)" unfolding g_def by (force intro: image_eqI)
    then show ?thesis by blast
  next
    case False
    with \<open>j \<noteq> v\<close> have "j < v" by simp
    from m' j(2) have "shares_target hs (names ! j) (names ! v)" by simp
    from sharing_nodes_joined [OF assms(1) \<open>j < v\<close> assms(2) this] obtain w where "(j, v, w) \<in> set es" ..
    then have "ig_edge j v w None None \<in> set (g_es g)" unfolding g_def by force
    then have "ig_edge v j w None None \<in> set (g_es g)" by (simp add: ig_edge_def min.commute max.commute)
    then show ?thesis by blast
  qed
  then obtain w where "ig_edge v j w None None \<in> set (g_es g)" by blast
  then have "j \<in> set (neighbors g v)" by (simp add: ig_edge_neighbors)
  then show ?thesis by auto
qed

section \<open>Properties\<close>

text \<open>
  C30. On the filtered hits the assembler never raises: it builds one vertex of weight 1
  per surviving node, in the order of the node list, every edge endpoint is a vertex,
  and every vertex has a neighbour (the graph has no isolated vertex).
\<close>

theorem overlap_graph_assembles:
  assumes "overlap_graph hs = Inr (names, es)"
  shows "\<exists>g. assemble names es = Inr g \<and> wf_graph g \<and> map v_name (g_vs g) = names \<and>
             (\<forall>v\<in>set (g_vs g). v_weight v = 1) \<and> (\<forall>v<nverts g. neighbors g v \<noteq> [])"
proof -
  let ?g = "\<lparr>g_vs = map new_vertex names, g_es = map (\<lambda>(i, j, w). ig_edge i j w None None) es\<rparr>"
  have "\<forall>v<nverts ?g. neighbors ?g v \<noteq> []"
    using assembled_degree [OF assms] by simp
  moreover have "map v_name (g_vs ?g) = names" "\<forall>v\<in>set (g_vs ?g). v_weight v = 1"
    by (simp_all add: new_vertex_def comp_def)
  ultimately show ?thesis
    using assemble_Inr [OF assms] assembled_wf [OF assms] by blast
qed

theorem overlap_graph_assembles_witness:
  "\<exists>g. assemble [''q1'', ''q2''] [(0, 1, 0.975)] = Inr g \<and> wf_graph g \<and>
       map v_name (g_vs g) = [''q1'', ''q2''] \<and> (\<forall>v\<in>set (g_vs g). v_weight v = 1) \<and>
       (\<forall>v<nverts g. neighbors g v \<noteq> [])"
proof -
  let ?hs = "[\<lparr>hit_node = ''q1'', hit_edge = ''t'', hit_bitscore = 100, hit_top = 100, hit_perc = 1\<rparr>,
     \<lparr>hit_node = ''q2'', hit_edge = ''t'', hit_bitscore = 95, hit_top = 100, hit_perc = 0.95::real\<rparr>]"
  have run: "overlap_graph ?hs = Inr ([''q1'', ''q2''], [(0, 1, 0.975)])"
    by (simp add: overlap_eval)
  show ?thesis by (rule overlap_graph_assembles [OF run])
qed

text \<open>
  Enough fuel: the component search \<open>reach\<close> started from one vertex reaches a fixed
  point of the search step within \<open>nverts g\<close> rounds, and any larger fuel gives the
  same component, so the fuel of \<open>comp_of\<close> never cuts igraph's search short.
\<close>

theorem comp_of_enough_fuel:
  assumes "wf_graph g" and "v < nverts g" and "nverts g \<le> k"
  shows "reach k g [v] = comp_of g v \<and> expand g (comp_of g v) = comp_of g v"
proof -
  have fp: "expand g (comp_of g v) = comp_of g v" by (rule comp_of_closed [OF assms(1,2)])
  from assms(3) obtain d where k: "k = nverts g + d" by (metis le_iff_add)
  then have "reach k g [v] = reach d g (comp_of g v)" by (simp add: reach_add comp_of_def)
  also have "\<dots> = comp_of g v" using fp by (rule reach_stable)
  finally show ?thesis using fp by simp
qed

theorem comp_of_enough_fuel_witness:
  "reach 5 \<lparr>g_vs = [new_vertex ''a'', new_vertex ''b'', new_vertex ''c''], g_es = [ig_edge 2 0 1 None None]\<rparr> [0] =
     comp_of \<lparr>g_vs = [new_vertex ''a'', new_vertex ''b'', new_vertex ''c''], g_es = [ig_edge 2 0 1 None None]\<rparr> 0 \<and>
   expand \<lparr>g_vs = [new_vertex ''a'', new_vertex ''b'', new_vertex ''c''], g_es = [ig_edge 2 0 1 None None]\<rparr>
     (comp_of \<lparr>g_vs = [new_vertex ''a'', new_vertex ''b'', new_vertex ''c''], g_es = [ig_edge 2 0 1 None None]\<rparr> 0) =
     comp_of \<lparr>g_vs = [new_vertex ''a'', new_vertex ''b'', new_vertex ''c''], g_es = [ig_edge 2 0 1 None None]\<rparr> 0"
proof (rule comp_of_enough_fuel)
  show "wf_graph \<lparr>g_vs = [new_vertex ''a'', new_vertex ''b'', new_vertex ''c''], g_es = [ig_edge 2 0 1 None None]\<rparr>"
    by (simp add: wf_graph_def ig_edge_def)
qed simp_all

text \<open>
  C32. The weak components of line 112 partition the vertices: every vertex lies in exactly
  one component.
\<close>

theorem components_partition:
  assumes "wf_graph g"
  shows "distinct (concat (connected_components g)) \<and> set (concat (connected_components g)) = {..<nverts g}"
  using assms by (rule components_cover)

theorem components_partition_witness:
  "distinct (concat (connected_components \<lparr>g_vs = [new_vertex ''a'', new_vertex ''b'', new_vertex ''c''],
          g_es = [ig_edge 2 0 1 None None]\<rparr>)) \<and>
   set (concat (connected_components \<lparr>g_vs = [new_vertex ''a'', new_vertex ''b'', new_vertex ''c''],
          g_es = [ig_edge 2 0 1 None None]\<rparr>)) = {..<3}"
proof -
  have "wf_graph \<lparr>g_vs = [new_vertex ''a'', new_vertex ''b'', new_vertex ''c''],
          g_es = [ig_edge 2 0 1 None None]\<rparr>"
    by (simp add: wf_graph_def ig_edge_def)
  from components_partition [OF this] show ?thesis by simp
qed

text \<open>
  C33. Each component is exactly the set of vertices reachable from any of its members:
  no edge leaves a component and every component is connected.
\<close>

theorem components_classes:
  assumes "wf_graph g" and "c \<in> set (connected_components g)" and "u \<in> set c"
  shows "set c = (adj g)\<^sup>* `` {u}"
  using assms by (rule components_are_classes)

theorem components_classes_witness:
  "set [0, 2] = (adj \<lparr>g_vs = [new_vertex ''a'', new_vertex ''b'', new_vertex ''c''],
          g_es = [ig_edge 2 0 1 None None]\<rparr>)\<^sup>* `` {0::nat}"
proof (rule components_classes)
  show "wf_graph \<lparr>g_vs = [new_vertex ''a'', new_vertex ''b'', new_vertex ''c''],
          g_es = [ig_edge 2 0 1 None None]\<rparr>"
    by (simp add: wf_graph_def ig_edge_def)
  show "[0, 2] \<in> set (connected_components \<lparr>g_vs = [new_vertex ''a'', new_vertex ''b'', new_vertex ''c''],
          g_es = [ig_edge 2 0 1 None None]\<rparr>)"
    by (simp add: connected_components_def comp_of_def expand_def neighbors_def ig_edge_def)
qed simp

end
