(* ===== verification/Grouping.thy ===== *)
theory Grouping
  imports Graph
begin

text \<open>
  Lines 132--162 of \<open>src/src/blast_to_graph.py\<close>: vertices of a component with the same
  community and the same closed neighbourhood are grouped, and each vertex is mapped to
  the smallest vertex of its group (the \<open>membership\<close> list handed to
  \<open>contract_vertices\<close>). The group of a vertex is named by a string,
  \<open>str(community) + "|" + ",".join(map(str, neighbors))\<close>, and the groups are kept in a
  Python dict, here an association list in insertion order. A reference parser of the
  group names shows that the string encoding loses nothing.
\<close>

section \<open>Closed neighbourhood (lines 139--148)\<close>

text \<open>
  The \<open>for i, neighbor in enumerate(neighbors)\<close> loop: insert the node before the first
  larger neighbour and stop; nothing is inserted when there is none.
\<close>

fun insert_before :: "nat \<Rightarrow> nat list \<Rightarrow> nat list" where
  "insert_before node [] = []"
| "insert_before node (x # xs) = (if node < x then node # x # xs else x # insert_before node xs)"

text \<open>\<open>neighbors[-1]\<close> raises \<open>IndexError\<close> on a vertex without neighbours.\<close>

definition insert_self :: "nat \<Rightarrow> nat list \<Rightarrow> py_error + nat list" where
  "insert_self node nbrs =
     (if nbrs = [] then Inl IndexError
      else if last nbrs < node then Inr (nbrs @ [node])
      else Inr (insert_before node nbrs))"

section \<open>Group names (line 152)\<close>

text \<open>Python's \<open>str\<close> of a non-negative int: its decimal digits.\<close>

fun nat_str :: "nat \<Rightarrow> string" where
  "nat_str n = (if n < 10 then [char_of (48 + n)] else nat_str (n div 10) @ [char_of (48 + n mod 10)])"

declare nat_str.simps [simp del]

text \<open>\<open>str\<close> of the community attribute, \<open>"None"\<close> when it was never set.\<close>

definition attr_str :: "nat option \<Rightarrow> string" where
  "attr_str c = (case c of None \<Rightarrow> ''None'' | Some n \<Rightarrow> nat_str n)"

definition group_name :: "nat option \<Rightarrow> nat list \<Rightarrow> string" where
  "group_name c nbrs = attr_str c @ ''|'' @ join_str '','' (map nat_str nbrs)"

section \<open>The group dict and the membership list (lines 133--162)\<close>

text \<open>
  \<open>if group_name not in node_groups: node_groups[group_name] = []\<close> followed by
  \<open>node_groups[group_name].append(node)\<close>.
\<close>

definition dict_append :: "'k \<Rightarrow> 'v \<Rightarrow> ('k \<times> 'v list) list \<Rightarrow> ('k \<times> 'v list) list" where
  "dict_append k v d =
     (if k \<in> fst ` set d then map (\<lambda>(k', vs). if k' = k then (k', vs @ [v]) else (k', vs)) d
      else d @ [(k, [v])])"

text \<open>The body of the \<open>for node in subgraph.vs.indices\<close> loop (lines 137--156).\<close>

definition group_step ::
  "graph \<Rightarrow> nat \<Rightarrow> (string \<times> nat list) list \<Rightarrow> py_error + (string \<times> nat list) list" where
  "group_step g node d =
     (case insert_self node (neighbors g node) of
        Inl err \<Rightarrow> Inl err
      | Inr nbrs \<Rightarrow> Inr (dict_append (group_name (v_community (g_vs g ! node)) nbrs) node d))"

definition node_groups :: "graph \<Rightarrow> py_error + (string \<times> nat list) list" where
  "node_groups g = fold_err (group_step g) [0..<nverts g] []"

text \<open>Python's \<open>min\<close> of a list, \<open>ValueError\<close> on an empty one.\<close>

definition py_min :: "nat list \<Rightarrow> py_error + nat" where
  "py_min xs = (case xs of [] \<Rightarrow> Inl ValueError | x # ys \<Rightarrow> Inr (fold min ys x))"

text \<open>\<open>xs[i] = v\<close> on a list: \<open>IndexError\<close> out of range.\<close>

definition py_setitem :: "nat \<Rightarrow> 'a \<Rightarrow> 'a list \<Rightarrow> py_error + 'a list" where
  "py_setitem i v xs = (if i < length xs then Inr (xs[i := v]) else Inl IndexError)"

text \<open>One iteration of \<open>for key, group in node_groups.items()\<close> (lines 159--162).\<close>

definition assign_group :: "string \<times> nat list \<Rightarrow> nat list \<Rightarrow> py_error + nat list" where
  "assign_group kg m =
     (case py_min (snd kg) of
        Inl err \<Rightarrow> Inl err
      | Inr min_idx \<Rightarrow> fold_err (\<lambda>i. py_setitem i min_idx) (snd kg) m)"

definition group_membership :: "graph \<Rightarrow> py_error + nat list" where
  "group_membership g =
     (case node_groups g of
        Inl err \<Rightarrow> Inl err
      | Inr d \<Rightarrow> fold_err assign_group d [0..<nverts g])"

section \<open>Reference definitions\<close>

text \<open>The group name of a vertex, when its neighbour list is not empty.\<close>

definition vertex_key :: "graph \<Rightarrow> nat \<Rightarrow> string" where
  "vertex_key g v = group_name (v_community (g_vs g ! v)) (insort v (neighbors g v))"

text \<open>Python's \<open>str.split(sep)\<close>, used to read a group name back.\<close>

fun py_split :: "char \<Rightarrow> string \<Rightarrow> string list" where
  "py_split sep [] = [[]]"
| "py_split sep (c # cs) =
     (if c = sep then [] # py_split sep cs
      else (case py_split sep cs of [] \<Rightarrow> [[c]] | w # ws \<Rightarrow> (c # w) # ws))"

definition digit_val :: "char \<Rightarrow> nat" where
  "digit_val c = of_char c - 48"

definition parse_nat :: "string \<Rightarrow> nat" where
  "parse_nat s = foldl (\<lambda>n c. 10 * n + digit_val c) 0 s"

definition parse_attr :: "string \<Rightarrow> nat option" where
  "parse_attr s = (if s = ''None'' then None else Some (parse_nat s))"

definition parse_group_name :: "string \<Rightarrow> (nat option \<times> nat list) option" where
  "parse_group_name s =
     (case py_split (CHR ''|'') s of
        [c, ns] \<Rightarrow> Some (parse_attr c, map parse_nat (py_split (CHR '','') ns))
      | _ \<Rightarrow> None)"

text \<open>
  The groups a dict built in insertion order holds: one entry per key, keys in the order
  they first occur, each with its elements in order.
\<close>

definition first_keys :: "'k list \<Rightarrow> 'k list" where
  "first_keys ks = rev (remdups (rev ks))"

definition groups_ref :: "('a \<Rightarrow> 'k) \<Rightarrow> 'a list \<Rightarrow> ('k \<times> 'a list) list" where
  "groups_ref key xs = map (\<lambda>k. (k, filter (\<lambda>u. key u = k) xs)) (first_keys (map key xs))"

text \<open>One group assignment of lines 159--162 once it cannot fail.\<close>

definition assign_ref :: "string \<times> nat list \<Rightarrow> nat list \<Rightarrow> nat list" where
  "assign_ref kg m = fold (\<lambda>i m. m[i := Min (set (snd kg))]) (snd kg) m"

text \<open>The vertices sharing the group name of \<open>v\<close>.\<close>

definition key_class :: "graph \<Rightarrow> nat \<Rightarrow> nat list" where
  "key_class g v = filter (\<lambda>u. vertex_key g u = vertex_key g v) [0..<nverts g]"

abbreviation tri_pendant :: graph where
  "tri_pendant \<equiv> \<lparr>g_vs = [new_vertex ''a'', new_vertex ''b'', new_vertex ''c'', new_vertex ''d''],
     g_es = [ig_edge 0 1 1 None None, ig_edge 0 2 1 None None, ig_edge 1 2 1 None None,
             ig_edge 2 3 1 None None]\<rparr>"

section \<open>Lemmas: inserting the node into its neighbour list\<close>


lemma insert_before_insort:
  "node \<notin> set xs \<Longrightarrow> \<exists>x\<in>set xs. node < x \<Longrightarrow> insert_before node xs = insort node xs"
  by (induction xs) auto

lemma insort_greatest:
  "\<forall>x\<in>set xs. x < node \<Longrightarrow> insort node xs = xs @ [node]"
  by (induction xs) auto

lemma insert_self_insort:
  assumes "sorted nbrs" and "nbrs \<noteq> []" and "node \<notin> set nbrs"
  shows "insert_self node nbrs = Inr (insort node nbrs)"
proof (cases "last nbrs < node")
  case True
  have "\<forall>x\<in>set nbrs. x < node"
  proof
    fix x assume "x \<in> set nbrs"
    with assms(1,2) have "x \<le> last nbrs"
      by (simp add: sorted_le_last)
    with True show "x < node" by simp
  qed
  with True assms(2) show ?thesis by (simp add: insert_self_def insort_greatest)
next
  case False
  from assms(2) have "last nbrs \<in> set nbrs" by simp
  with assms(3) False have "node < last nbrs" by (cases "node = last nbrs") auto
  with \<open>last nbrs \<in> set nbrs\<close> have "\<exists>x\<in>set nbrs. node < x" by blast
  with False assms(2,3) show ?thesis by (simp add: insert_self_def insert_before_insort)
qed

section \<open>Lemmas: group names and their parser\<close>

lemma nat_str_small [simp]: "n < 10 \<Longrightarrow> nat_str n = [char_of (48 + n)]"
  by (simp add: nat_str.simps)

lemma nat_str_big: "\<not> n < 10 \<Longrightarrow> nat_str n = nat_str (n div 10) @ [char_of (48 + n mod 10)]"
  by (simp add: nat_str.simps)

lemma nat_str_digits: "c \<in> set (nat_str n) \<Longrightarrow> (48::nat) \<le> of_char c \<and> of_char c < (58::nat)"
proof (induction n rule: nat_str.induct)
  case (1 n)
  show ?case
  proof (cases "n < 10")
    case True
    with "1.prems" show ?thesis by (simp add: of_char_of)
  next
    case False
    with "1.prems" have "c \<in> set (nat_str (n div 10)) \<or> c = char_of (48 + n mod 10)"
      by (auto simp: nat_str_big)
    then show ?thesis
    proof
      assume "c = char_of (48 + n mod 10)"
      then show ?thesis by (simp add: of_char_of)
    qed (use "1.IH" False in simp)
  qed
qed

lemma nat_str_nonempty: "nat_str n \<noteq> []"
  by (cases "n < 10") (simp_all add: nat_str_big)

lemma parse_nat_snoc: "parse_nat (s @ [c]) = 10 * parse_nat s + digit_val c"
  by (simp add: parse_nat_def)

lemma parse_nat_str: "parse_nat (nat_str n) = n"
proof (induction n rule: nat_str.induct)
  case (1 n)
  show ?case
  proof (cases "n < 10")
    case True
    then show ?thesis by (simp add: parse_nat_def digit_val_def of_char_of)
  next
    case False
    then have "parse_nat (nat_str n) = 10 * parse_nat (nat_str (n div 10)) + n mod 10"
      by (simp add: nat_str_big parse_nat_snoc digit_val_def of_char_of)
    with "1.IH" False show ?thesis by simp
  qed
qed

lemma py_split_nosep: "sep \<notin> set a \<Longrightarrow> py_split sep a = [a]"
  by (induction a) auto

lemma py_split_append: "sep \<notin> set a \<Longrightarrow> py_split sep (a @ sep # b) = a # py_split sep b"
  by (induction a) auto

lemma set_join_str: "set (join_str sep xs) \<subseteq> set sep \<union> (\<Union>x\<in>set xs. set x)"
  by (induction sep xs rule: join_str.induct) auto

lemma py_split_join:
  "\<forall>x\<in>set xs. sep \<notin> set x \<Longrightarrow> xs \<noteq> [] \<Longrightarrow> py_split sep (join_str [sep] xs) = xs"
  by (induction "[sep]" xs rule: join_str.induct) (simp_all add: py_split_nosep py_split_append)

lemma nat_str_no_char:
  "(58::nat) \<le> of_char c \<Longrightarrow> c \<notin> set (nat_str n)"
  using nat_str_digits by fastforce

lemma nat_str_no_sep: "CHR '','' \<notin> set (nat_str n)" "CHR ''|'' \<notin> set (nat_str n)"
proof -
  show "CHR '','' \<notin> set (nat_str n)"
  proof
    assume "CHR '','' \<in> set (nat_str n)"
    from nat_str_digits [OF this] show False by simp
  qed
  show "CHR ''|'' \<notin> set (nat_str n)"
    by (rule nat_str_no_char) simp
qed

lemma attr_str_no_bar: "CHR ''|'' \<notin> set (attr_str c)"
  by (cases c) (simp_all add: attr_str_def nat_str_no_sep)

lemma parse_attr_str: "parse_attr (attr_str c) = c"
proof (cases c)
  case None
  then show ?thesis by (simp add: attr_str_def parse_attr_def)
next
  case (Some n)
  have "CHR ''N'' \<notin> set (nat_str n)" by (rule nat_str_no_char) simp
  then have "nat_str n \<noteq> ''None''" by auto
  with Some show ?thesis by (simp add: attr_str_def parse_attr_def parse_nat_str)
qed

lemma join_no_bar: "CHR ''|'' \<notin> set (join_str '','' (map nat_str ns))"
  using set_join_str [of "'',''" "map nat_str ns"] nat_str_no_sep(2) by auto

lemma parse_group_name_inverse:
  assumes "ns \<noteq> []"
  shows "parse_group_name (group_name c ns) = Some (c, ns)"
proof -
  have "py_split (CHR ''|'') (group_name c ns) = [attr_str c, join_str '','' (map nat_str ns)]"
    by (simp add: group_name_def py_split_append attr_str_no_bar py_split_nosep join_no_bar)
  moreover have "py_split (CHR '','') (join_str '','' (map nat_str ns)) = map nat_str ns"
    using py_split_join [of "map nat_str ns" "CHR '',''"] assms nat_str_no_sep(1) by simp
  ultimately show ?thesis
    by (simp add: parse_group_name_def parse_attr_str comp_def parse_nat_str)
qed

lemma group_name_inj:
  assumes "group_name c1 ns1 = group_name c2 ns2" and "ns1 \<noteq> []" and "ns2 \<noteq> []"
  shows "c1 = c2 \<and> ns1 = ns2"
proof -
  have "Some (c1, ns1) = parse_group_name (group_name c1 ns1)"
    by (rule parse_group_name_inverse [OF assms(2), symmetric])
  also have "\<dots> = parse_group_name (group_name c2 ns2)"
    by (simp only: assms(1))
  also have "\<dots> = Some (c2, ns2)"
    by (rule parse_group_name_inverse [OF assms(3)])
  finally show ?thesis by simp
qed

lemma vertex_key_eq_iff:
  "vertex_key g u = vertex_key g v \<longleftrightarrow>
     v_community (g_vs g ! u) = v_community (g_vs g ! v) \<and> insort u (neighbors g u) = insort v (neighbors g v)"
proof
  assume "vertex_key g u = vertex_key g v"
  moreover have "insort u (neighbors g u) \<noteq> []" "insort v (neighbors g v) \<noteq> []"
    by (simp_all add: insort_not_Nil)
  ultimately show "v_community (g_vs g ! u) = v_community (g_vs g ! v) \<and>
      insort u (neighbors g u) = insort v (neighbors g v)"
    unfolding vertex_key_def by (rule group_name_inj)
qed (simp add: vertex_key_def)

section \<open>Lemmas: the group dict refines the reference grouping\<close>


lemma first_keys_snoc:
  "first_keys (ks @ [k]) = (if k \<in> set ks then first_keys ks else first_keys ks @ [k])"
  by (simp add: first_keys_def)

lemma set_first_keys [simp]: "set (first_keys ks) = set ks"
  by (simp add: first_keys_def)

lemma dict_append_groups:
  "dict_append (key x) x (groups_ref key xs) = groups_ref key (xs @ [x])"
proof (cases "key x \<in> key ` set xs")
  case True
  then have "key x \<in> fst ` set (groups_ref key xs)"
    by (simp add: groups_ref_def image_image)
  with True show ?thesis
    by (auto simp: dict_append_def groups_ref_def first_keys_snoc)
next
  case False
  then have "key x \<notin> fst ` set (groups_ref key xs)"
    by (simp add: groups_ref_def image_image)
  moreover from False have "filter (\<lambda>u. key u = key x) xs = []"
    unfolding filter_empty_conv by (metis image_eqI)
  ultimately show ?thesis using False
    by (auto simp: dict_append_def groups_ref_def first_keys_snoc)
qed

lemma neighbors_sorted: "sorted (neighbors g v)"
  by (simp add: neighbors_def)

lemma group_step_ref:
  assumes "neighbors g v \<noteq> []" and "v \<notin> set (neighbors g v)"
  shows "group_step g v (groups_ref (vertex_key g) xs) = Inr (groups_ref (vertex_key g) (xs @ [v]))"
  using insert_self_insort [OF neighbors_sorted assms]
  by (simp add: group_step_def vertex_key_def flip: dict_append_groups)

lemma node_groups_prefix:
  assumes "\<forall>v<nverts g. neighbors g v \<noteq> [] \<and> v \<notin> set (neighbors g v)" and "k \<le> nverts g"
  shows "fold_err (group_step g) [0..<k] [] = Inr (groups_ref (vertex_key g) [0..<k])"
  using assms(2)
proof (induction k)
  case 0
  then show ?case by (simp add: groups_ref_def first_keys_def)
next
  case (Suc k)
  then have "k < nverts g" by simp
  with assms(1) have "group_step g k (groups_ref (vertex_key g) [0..<k]) =
      Inr (groups_ref (vertex_key g) ([0..<k] @ [k]))"
    by (simp add: group_step_ref)
  with Suc show ?case by (simp add: fold_err_append)
qed

lemma node_groups_ref:
  assumes "\<forall>v<nverts g. neighbors g v \<noteq> [] \<and> v \<notin> set (neighbors g v)"
  shows "node_groups g = Inr (groups_ref (vertex_key g) [0..<nverts g])"
  unfolding node_groups_def using node_groups_prefix [OF assms order_refl] .

lemma group_step_error: "group_step g v d = Inl e \<Longrightarrow> e = IndexError"
  by (auto simp: group_step_def insert_self_def split: sum.splits if_splits)


lemma fold_setitem:
  "\<forall>i\<in>set is. i < length m \<Longrightarrow> fold_err (\<lambda>i. py_setitem i v) is m = Inr (fold (\<lambda>i m. m[i := v]) is m)"
  by (induction "is" arbitrary: m) (simp_all add: py_setitem_def)

lemma length_fold_update [simp]: "length (fold (\<lambda>i m. m[i := v]) is m) = length m"
  by (induction "is" arbitrary: m) simp_all

lemma fold_update_nth:
  "j < length m \<Longrightarrow> fold (\<lambda>i m. m[i := v]) is m ! j = (if j \<in> set is then v else m ! j)"
  by (induction "is" arbitrary: m) (auto simp: nth_list_update)

lemma py_min_Min: "xs \<noteq> [] \<Longrightarrow> py_min xs = Inr (Min (set xs))"
proof (cases xs)
  case (Cons a l)
  then show ?thesis by (simp add: py_min_def Min.set_eq_fold [of a l, symmetric])
qed simp

lemma length_assign_ref [simp]: "length (fold assign_ref ds m) = length m"
  by (induction ds arbitrary: m) (simp_all add: assign_ref_def)

lemma assign_groups:
  "\<forall>kg\<in>set ds. snd kg \<noteq> [] \<and> set (snd kg) \<subseteq> {..<length m} \<Longrightarrow>
     fold_err assign_group ds m = Inr (fold assign_ref ds m)"
proof (induction ds arbitrary: m)
  case Nil
  then show ?case by simp
next
  case (Cons kg ds)
  then have ne: "snd kg \<noteq> []" and "\<forall>i\<in>set (snd kg). i < length m" by auto
  then have "assign_group kg m = Inr (assign_ref kg m)"
    by (simp add: assign_group_def assign_ref_def py_min_Min fold_setitem)
  moreover have "length (assign_ref kg m) = length m" by (simp add: assign_ref_def)
  ultimately show ?case using Cons by simp
qed

lemma groups_fold_nth:
  assumes "v \<in> set xs" and "v < length m"
  shows "fold assign_ref (map (\<lambda>k. (k, filter (\<lambda>u. key u = k) xs)) K) m ! v =
           (if key v \<in> set K then Min (set (filter (\<lambda>u. key u = key v) xs)) else m ! v)"
  using assms(2)
proof (induction K arbitrary: m)
  case Nil
  then show ?case by simp
next
  case (Cons k K)
  let ?m = "assign_ref (k, filter (\<lambda>u. key u = k) xs) m"
  have len: "v < length ?m" using Cons.prems by (simp add: assign_ref_def)
  have step: "?m ! v = (if key v = k then Min (set (filter (\<lambda>u. key u = key v) xs)) else m ! v)"
    using Cons.prems assms(1) by (auto simp: assign_ref_def fold_update_nth)
  show ?case using Cons.IH [OF len] step by auto
qed

lemma group_membership_closed:
  assumes "\<forall>v<nverts g. neighbors g v \<noteq> [] \<and> v \<notin> set (neighbors g v)"
  shows "group_membership g =
           Inr (map (\<lambda>v. Min (set (filter (\<lambda>u. vertex_key g u = vertex_key g v) [0..<nverts g])))
                    [0..<nverts g])"
proof -
  let ?key = "vertex_key g" and ?xs = "[0..<nverts g]"
  let ?ds = "groups_ref ?key ?xs"
  have "\<forall>kg\<in>set ?ds. snd kg \<noteq> [] \<and> set (snd kg) \<subseteq> {..<length ?xs}"
    by (force simp: groups_ref_def filter_empty_conv)
  then have run: "fold_err assign_group ?ds ?xs = Inr (fold assign_ref ?ds ?xs)"
    by (rule assign_groups)
  have "fold assign_ref ?ds ?xs =
      map (\<lambda>v. Min (set (filter (\<lambda>u. ?key u = ?key v) ?xs))) ?xs"
  proof (rule nth_equalityI)
    show "length (fold assign_ref ?ds ?xs) = length (map (\<lambda>v. Min (set (filter (\<lambda>u. ?key u = ?key v) ?xs))) ?xs)"
      by simp
    fix v assume "v < length (fold assign_ref ?ds ?xs)"
    then have v: "v \<in> set ?xs" "v < length ?xs" by simp_all
    have "?key v \<in> set (first_keys (map ?key ?xs))" using v(1) by simp
    with groups_fold_nth [OF v, of ?key "first_keys (map ?key ?xs)"] v(2)
    show "fold assign_ref ?ds ?xs ! v = map (\<lambda>v. Min (set (filter (\<lambda>u. ?key u = ?key v) ?xs))) ?xs ! v"
      by (simp add: groups_ref_def)
  qed
  with run show ?thesis
    by (simp add: group_membership_def node_groups_ref [OF assms])
qed

section \<open>Lemmas: the membership list\<close>

lemma key_class_min_mem:
  assumes "v < nverts g"
  shows "Min (set (key_class g v)) \<in> set (key_class g v)"
proof -
  from assms have "v \<in> set (key_class g v)" by (simp add: key_class_def)
  then have "set (key_class g v) \<noteq> {}" by (metis empty_iff)
  then show ?thesis by (rule Min_in [OF finite_set])
qed

lemma key_class_eq:
  "vertex_key g u = vertex_key g v \<Longrightarrow> key_class g u = key_class g v"
  by (simp add: key_class_def)

lemma key_class_key: "w \<in> set (key_class g v) \<Longrightarrow> vertex_key g w = vertex_key g v"
  by (simp add: key_class_def)

lemma min_class_eq_iff:
  assumes "u < nverts g" and "v < nverts g"
  shows "Min (set (key_class g u)) = Min (set (key_class g v)) \<longleftrightarrow> vertex_key g u = vertex_key g v"
proof
  assume eq: "Min (set (key_class g u)) = Min (set (key_class g v))"
  have "vertex_key g u = vertex_key g (Min (set (key_class g u)))"
    using key_class_key [OF key_class_min_mem [OF assms(1)]] by (rule sym)
  also have "\<dots> = vertex_key g (Min (set (key_class g v)))"
    by (simp only: eq)
  also have "\<dots> = vertex_key g v"
    by (rule key_class_key [OF key_class_min_mem [OF assms(2)]])
  finally show "vertex_key g u = vertex_key g v" .
next
  assume "vertex_key g u = vertex_key g v"
  then have "key_class g u = key_class g v" by (rule key_class_eq)
  then show "Min (set (key_class g u)) = Min (set (key_class g v))" by (simp only:)
qed


section \<open>Properties\<close>

text \<open>
  Lines 141--148 insert the node into its sorted neighbour list exactly as a sorted
  insertion would, whichever branch runs, when the node is not its own neighbour.
\<close>

theorem insert_self_equiv_insort:
  assumes "sorted nbrs" and "nbrs \<noteq> []" and "node \<notin> set nbrs"
  shows "insert_self node nbrs = Inr (insort node nbrs)"
  using assms by (rule insert_self_insort)

theorem insert_self_equiv_insort_witness:
  "insert_self 2 [1, 3] = Inr (insort 2 [1, 3 :: nat])"
  by (rule insert_self_equiv_insort) simp_all

text \<open>
  C38. The group name of line 152 can be read back: splitting it at \<open>"|"\<close> and
  \<open>","\<close> returns the community and the closed neighbourhood it was built from.
\<close>

theorem group_name_roundtrip:
  assumes "ns \<noteq> []"
  shows "parse_group_name (group_name c ns) = Some (c, ns)"
  using assms by (rule parse_group_name_inverse)

theorem group_name_roundtrip_witness:
  "parse_group_name (group_name (Some 12) [3, 10]) = Some (Some 12, [3, 10])"
  by (rule group_name_roundtrip) simp

text \<open>
  C37. When every vertex has a neighbour and none is its own, the dict of lines 133--156
  holds one entry per group name, in order of first occurrence, listing the vertices
  with that name in increasing order.
\<close>

theorem node_groups_refines:
  assumes "\<forall>v<nverts g. neighbors g v \<noteq> [] \<and> v \<notin> set (neighbors g v)"
  shows "node_groups g = Inr (groups_ref (vertex_key g) [0..<nverts g])"
  using assms by (rule node_groups_ref)

theorem node_groups_refines_witness:
  "node_groups tri_pendant = Inr (groups_ref (vertex_key tri_pendant) [0..<nverts tri_pendant])"
proof -
  have "\<forall>v<nverts tri_pendant. neighbors tri_pendant v \<noteq> [] \<and> v \<notin> set (neighbors tri_pendant v)"
    by code_simp
  from node_groups_refines [OF this] show ?thesis .
qed

text \<open>
  A vertex without neighbours makes line 142 raise \<open>IndexError\<close>
  (\<open>neighbors[-1]\<close> on an empty list), whatever the other vertices are.
\<close>

theorem node_groups_isolated_error:
  assumes "v < nverts g" and "neighbors g v = []"
  shows "node_groups g = Inl IndexError"
proof (cases "node_groups g")
  case (Inl e)
  then show ?thesis
    using fold_err_Inl_only [of "group_step g" IndexError] group_step_error
    by (simp add: node_groups_def)
next
  case (Inr d)
  from assms(1) have "v \<in> set [0..<nverts g]" by simp
  from fold_err_Inr_each [OF Inr [unfolded node_groups_def] this] obtain t t' where
    "group_step g v t = Inr t'" by blast
  with assms(2) show ?thesis by (simp add: group_step_def insert_self_def)
qed

theorem node_groups_isolated_error_witness:
  "node_groups \<lparr>g_vs = [new_vertex ''a''], g_es = []\<rparr> = Inl IndexError"
  by (rule node_groups_isolated_error [of 0]) (simp_all add: neighbors_def)

text \<open>
  When every vertex has a neighbour and none is its own, lines 159--162 map every
  vertex to the smallest vertex with the same group name.
\<close>

theorem group_membership_min:
  assumes "\<forall>v<nverts g. neighbors g v \<noteq> [] \<and> v \<notin> set (neighbors g v)"
  shows "group_membership g =
           Inr (map (\<lambda>v. Min (set (filter (\<lambda>u. vertex_key g u = vertex_key g v) [0..<nverts g])))
                    [0..<nverts g])"
  using assms by (rule group_membership_closed)

theorem group_membership_min_witness:
  "group_membership tri_pendant =
     Inr (map (\<lambda>v. Min (set (filter (\<lambda>u. vertex_key tri_pendant u = vertex_key tri_pendant v)
                                    [0..<nverts tri_pendant])))
              [0..<nverts tri_pendant])"
proof -
  have "\<forall>v<nverts tri_pendant. neighbors tri_pendant v \<noteq> [] \<and> v \<notin> set (neighbors tri_pendant v)"
    by code_simp
  from group_membership_min [OF this] show ?thesis .
qed

text \<open>
  C34. Two vertices are mapped to the same representative exactly when they have the same
  community and the same closed neighbourhood (the spec's structural equivalence).
\<close>

theorem membership_same_iff:
  assumes "\<forall>v<nverts g. neighbors g v \<noteq> [] \<and> v \<notin> set (neighbors g v)"
    and "group_membership g = Inr m" and "u < nverts g" and "v < nverts g"
  shows "m ! u = m ! v \<longleftrightarrow>
     v_community (g_vs g ! u) = v_community (g_vs g ! v) \<and> insort u (neighbors g u) = insort v (neighbors g v)"
proof -
  from assms(2) group_membership_closed [OF assms(1)]
  have "m = map (\<lambda>v. Min (set (key_class g v))) [0..<nverts g]"
    by (simp add: key_class_def)
  with assms(3,4) have "m ! u = Min (set (key_class g u))" "m ! v = Min (set (key_class g v))"
    by simp_all
  then show ?thesis
    by (simp only: min_class_eq_iff [OF assms(3,4)] vertex_key_eq_iff)
qed

theorem membership_same_iff_witness:
  "[0, 0, 2, 3 :: nat] ! 0 = [0, 0, 2, 3] ! 1 \<longleftrightarrow>
     v_community (g_vs tri_pendant ! 0) = v_community (g_vs tri_pendant ! 1) \<and>
     insort 0 (neighbors tri_pendant 0) = insort 1 (neighbors tri_pendant 1)"
proof -
  have nb: "\<forall>v<nverts tri_pendant. neighbors tri_pendant v \<noteq> [] \<and> v \<notin> set (neighbors tri_pendant v)"
    by code_simp
  have m: "group_membership tri_pendant = Inr [0, 0, 2, 3]"
    by code_simp
  show ?thesis by (rule membership_same_iff [OF nb m]) simp_all
qed

end
