(* ===== verification/Component.thy ===== *)
theory Component
  imports Grouping
begin

text \<open>
  The body of the \<open>for subgraph_index, component in enumerate(components)\<close> loop of
  \<open>src/src/blast_to_graph.py\<close> (lines 116--181): the induced subgraph is tagged with its
  index, given the coordinates of a layout and the community of a clustering, its
  structurally equivalent vertices are contracted (\<open>Grouping\<close> computes the membership)
  and parallel edges merged. The layout (\<open>kamada_kawai\<close>) and the clustering
  (\<open>community_fastgreedy().as_clustering()\<close>) are igraph's and are parameters here:
  \<open>layout g\<close> lists one coordinate pair per vertex and \<open>cluster g\<close> the vertex lists of
  the communities. The lemmas show what contraction and simplification keep (total
  vertex weight, total edge weight off loops) and what they leave behind (the empty
  vertices of an unused membership index).
\<close>

section \<open>Attributes set on the subgraph (lines 121--130)\<close>

text \<open>\<open>subgraph.vs["subgraph"] = int(subgraph_index)\<close> and the same on the edges.\<close>

definition tag_subgraph :: "nat \<Rightarrow> graph \<Rightarrow> graph" where
  "tag_subgraph k g =
     \<lparr>g_vs = map (\<lambda>v. v\<lparr>v_subgraph := Some k\<rparr>) (g_vs g),
      g_es = map (\<lambda>e. e\<lparr>e_subgraph := Some k\<rparr>) (g_es g)\<rparr>"

text \<open>
  \<open>subgraph.vs["x"] = [n[0] for n in layout]\<close> and the same for \<open>y\<close>: igraph refuses a
  value list whose length is not the number of vertices.
\<close>

definition set_layout :: "(real \<times> real) list \<Rightarrow> graph \<Rightarrow> py_error + graph" where
  "set_layout coords g =
     (if length coords \<noteq> nverts g then Inl ValueError
      else Inr (g\<lparr>g_vs := map (\<lambda>(v, (x, y)). v\<lparr>v_x := Some x, v_y := Some y\<rparr>) (zip (g_vs g) coords)\<rparr>))"

text \<open>
  \<open>subgraph.vs[community]["community"] = c\<close> and
  \<open>subgraph.es.select(_within=community)["community"] = c\<close>; a vertex id that is not a
  vertex is refused.
\<close>

definition set_community :: "nat \<Rightarrow> nat list \<Rightarrow> graph \<Rightarrow> py_error + graph" where
  "set_community c comm g =
     (if \<exists>v\<in>set comm. nverts g \<le> v then Inl ValueError
      else Inr \<lparr>g_vs = map (\<lambda>(i, v). if i \<in> set comm then v\<lparr>v_community := Some c\<rparr> else v)
                          (enumerate 0 (g_vs g)),
                g_es = map (\<lambda>e. if e_src e \<in> set comm \<and> e_tgt e \<in> set comm
                                then e\<lparr>e_community := Some c\<rparr> else e) (g_es g)\<rparr>)"

text \<open>The loop of lines 128--130 over the enumerated communities.\<close>

definition set_communities :: "nat list list \<Rightarrow> graph \<Rightarrow> py_error + graph" where
  "set_communities clusters g = fold_err (\<lambda>(c, comm). set_community c comm) (enumerate 0 clusters) g"

text \<open>\<open>subgraph.vs["node"] = subgraph.vs.indices\<close> (line 181).\<close>

definition node_index :: "graph \<Rightarrow> graph" where
  "node_index g = g\<lparr>g_vs := map (\<lambda>(i, v). v\<lparr>v_node := Some i\<rparr>) (enumerate 0 (g_vs g))\<rparr>"

section \<open>One component (lines 118--181)\<close>

definition process_component ::
  "(graph \<Rightarrow> (real \<times> real) list) \<Rightarrow> (graph \<Rightarrow> nat list list) \<Rightarrow> graph \<Rightarrow> nat \<Rightarrow> nat list \<Rightarrow>
   py_error + graph" where
  "process_component layout cluster g k vs =
     (let s1 = tag_subgraph k (induced_subgraph g vs) in
      case set_layout (layout s1) s1 of
        Inl err \<Rightarrow> Inl err
      | Inr s2 \<Rightarrow>
          (case set_communities (cluster s2) s2 of
             Inl err \<Rightarrow> Inl err
           | Inr s3 \<Rightarrow>
               (case group_membership s3 of
                  Inl err \<Rightarrow> Inl err
                | Inr m \<Rightarrow>
                    (case contract_vertices m s3 of
                       Inl err \<Rightarrow> Inl err
                     | Inr s4 \<Rightarrow> Inr (node_index (simplify s4))))))"

section \<open>Lemmas: contraction and simplification\<close>

lemma membership_keys:
  "(\<lambda>v. m ! v) ` set [0..<length m] \<subseteq> set [0..<(if m = [] then 0 else Suc (Max (set m)))]"
proof (cases "m = []")
  case False
  have lt: "m ! v \<le> Max (set m)" if "v < length m" for v
    using Max_ge [OF finite_set nth_mem [OF that]] .
  show ?thesis
  proof
    fix x assume "x \<in> (\<lambda>v. m ! v) ` set [0..<length m]"
    then obtain v where v: "v < length m" "x = m ! v" by auto
    have lt2: "m ! v < Suc (Max (set m))" by (rule le_imp_less_Suc [OF lt [OF v(1)]])
    from False have eq: "set [0..<(if m = [] then 0 else Suc (Max (set m)))] = {0..<Suc (Max (set m))}"
      by (simp only: if_not_P set_upt if_False)
    show "x \<in> set [0..<(if m = [] then 0 else Suc (Max (set m)))]"
      unfolding eq atLeastLessThan_iff v(2) using lt2 by blast
  qed
qed simp

lemma contract_vertices_Inr:
  assumes "contract_vertices m g = Inr g'"
  shows "length m = nverts g \<and>
    g_vs g' = map (\<lambda>k. combine_vertices (map (\<lambda>v. g_vs g ! v) (members m k)))
                  [0..<(if m = [] then 0 else Suc (Max (set m)))] \<and>
    g_es g' = map (\<lambda>e. ig_edge (m ! e_src e) (m ! e_tgt e) (e_weight e) (e_subgraph e) (e_community e)) (g_es g)"
  using assms by (auto simp: contract_vertices_def split: if_splits)

lemma contract_weight_sum:
  assumes "contract_vertices m g = Inr g'"
  shows "sum_list (map v_weight (g_vs g')) = sum_list (map v_weight (g_vs g))"
proof -
  let ?K = "if m = [] then 0 else Suc (Max (set m))"
  let ?f = "\<lambda>v. v_weight (g_vs g ! v)"
  from contract_vertices_Inr [OF assms] have len: "length m = nverts g"
    and vs: "g_vs g' = map (\<lambda>k. combine_vertices (map (\<lambda>v. g_vs g ! v) (members m k))) [0..<?K]"
    by simp_all
  have "sum_list (map v_weight (g_vs g')) =
      sum_list (map (\<lambda>k. sum_list (map ?f (filter (\<lambda>v. m ! v = k) [0..<length m]))) [0..<?K])"
    by (simp add: vs combine_vertices_def members_def comp_def)
  also have "\<dots> = sum_list (map ?f [0..<length m])"
    by (rule sum_list_group [OF _ membership_keys]) simp
  also have "map ?f [0..<length m] = map v_weight (map (\<lambda>v. g_vs g ! v) [0..<length (g_vs g)])"
    by (simp only: len map_map comp_def)
  also have "\<dots> = map v_weight (g_vs g)"
    by (simp only: map_nth)
  finally show ?thesis .
qed

lemma members_empty_iff: "members m k = [] \<longleftrightarrow> k \<notin> set m"
  by (auto simp: members_def filter_empty_conv in_set_conv_nth)

lemma contract_phantom_vertex:
  assumes "contract_vertices m g = Inr g'" and "k < nverts g'" and "k \<notin> set m"
  shows "g_vs g' ! k = combine_vertices []"
proof -
  from contract_vertices_Inr [OF assms(1)] assms(2) have
    "g_vs g' ! k = combine_vertices (map (\<lambda>v. g_vs g ! v) (members m k))" by auto
  moreover from assms(3) have "members m k = []" by (simp add: members_empty_iff)
  ultimately show ?thesis by simp
qed

lemma simplify_es:
  "g_es (simplify g) =
     map (\<lambda>(a, b). let grp = filter (\<lambda>e. ekey e = (a, b)) (filter (\<lambda>e. e_src e \<noteq> e_tgt e) (g_es g)) in
          \<lparr>e_src = a, e_tgt = b, e_weight = sum_list (map e_weight grp),
           e_subgraph = first_attr (map e_subgraph grp), e_community = first_attr (map e_community grp)\<rparr>)
       (sort (remdups (map ekey (filter (\<lambda>e. e_src e \<noteq> e_tgt e) (g_es g)))))"
  by (simp add: simplify_def Let_def)

lemma simplify_keys:
  "map ekey (g_es (simplify g)) = sort (remdups (map ekey (filter (\<lambda>e. e_src e \<noteq> e_tgt e) (g_es g))))"
  by (simp add: simplify_es comp_def ekey_def case_prod_beta Let_def)

lemma simplify_no_loops: "e \<in> set (g_es (simplify g)) \<Longrightarrow> e_src e \<noteq> e_tgt e"
  by (auto simp: simplify_es ekey_def Let_def)

lemma simplify_weight_sum:
  "sum_list (map e_weight (g_es (simplify g))) =
     sum_list (map e_weight (filter (\<lambda>e. e_src e \<noteq> e_tgt e) (g_es g)))"
proof -
  let ?es = "filter (\<lambda>e. e_src e \<noteq> e_tgt e) (g_es g)"
  have "sum_list (map e_weight (g_es (simplify g))) =
      sum_list (map (\<lambda>k. sum_list (map e_weight (filter (\<lambda>e. ekey e = k) ?es))) (sort (remdups (map ekey ?es))))"
    by (simp add: simplify_es comp_def case_prod_beta Let_def)
  also have "\<dots> = sum_list (map e_weight ?es)"
    by (rule sum_list_group) auto
  finally show ?thesis .
qed


section \<open>Properties\<close>

text \<open>
  C35. Contraction conserves mass: with a membership list of the right length
  \<open>contract_vertices\<close> succeeds and the vertex weights of the result sum to those of
  the subgraph (the spec's contraction invariant).
\<close>

theorem contract_mass_conservation:
  assumes "length m = nverts g"
  shows "\<exists>g'. contract_vertices m g = Inr g' \<and>
           sum_list (map v_weight (g_vs g')) = sum_list (map v_weight (g_vs g))"
proof -
  from assms obtain g' where run: "contract_vertices m g = Inr g'"
    by (simp add: contract_vertices_def)
  with contract_weight_sum [OF run] show ?thesis by blast
qed

theorem contract_mass_conservation_witness:
  "\<exists>g'. contract_vertices [0, 0, 2, 3] tri_pendant = Inr g' \<and>
     sum_list (map v_weight (g_vs g')) = sum_list (map v_weight (g_vs tri_pendant))"
  by (rule contract_mass_conservation) simp

text \<open>
  C36. Contraction creates one vertex per index up to the largest membership value, and
  every such index that no vertex is mapped to becomes an empty vertex: no name, weight
  0, no position, community or subgraph. The removal that would drop them (lines 183--185)
  is commented out; with the smallest-index representatives of \<open>group_membership\<close>
  every gap below the largest representative is such a vertex.
\<close>

theorem contract_phantom:
  assumes "length m = nverts g" and "k < (if m = [] then 0 else Suc (Max (set m)))" and "k \<notin> set m"
  shows "\<exists>g'. contract_vertices m g = Inr g' \<and> nverts g' = (if m = [] then 0 else Suc (Max (set m))) \<and>
           g_vs g' ! k = \<lparr>v_name = [], v_weight = 0, v_subgraph = None, v_x = None, v_y = None,
                          v_community = None, v_node = None\<rparr>"
proof -
  from assms(1) obtain g' where run: "contract_vertices m g = Inr g'"
    by (simp add: contract_vertices_def)
  from contract_vertices_Inr [OF run] have n: "nverts g' = (if m = [] then 0 else Suc (Max (set m)))"
    by simp
  with assms(2) have "k < nverts g'" by simp
  from contract_phantom_vertex [OF run this assms(3)] run n show ?thesis
    by (simp add: combine_vertices_def first_attr_def mean_attr_def mean_def)
qed

theorem contract_phantom_witness:
  "\<exists>g'. contract_vertices [0, 0, 2, 3] tri_pendant = Inr g' \<and> nverts g' = 4 \<and>
     g_vs g' ! 1 = \<lparr>v_name = [], v_weight = 0, v_subgraph = None, v_x = None, v_y = None,
                    v_community = None, v_node = None\<rparr>"
  using contract_phantom [of "[0, 0, 2, 3]" tri_pendant 1] by simp

text \<open>
  The defect on a real component: a triangle with a pendant vertex (the two triangle
  vertices away from the pendant are equivalent) is processed into four vertices, one of
  them empty, though only three groups exist.
\<close>

theorem tri_pendant_component_phantom:
  "(case process_component (\<lambda>g. replicate (nverts g) (0, 0)) (\<lambda>g. [[0..<nverts g]]) tri_pendant 0 [0, 1, 2, 3] of
      Inl err \<Rightarrow> False
    | Inr s \<Rightarrow> nverts s = 4 \<and> v_name (g_vs s ! 1) = [] \<and> v_weight (g_vs s ! 1) = 0)"
  by code_simp

text \<open>
  Spec scenario B: a triangle of equivalent vertices in one community contracts to a
  single vertex of weight 3 named by the three names, with no edge left.
\<close>

theorem process_component_scenario_b:
  "process_component (\<lambda>g. replicate (nverts g) (0, 0)) (\<lambda>g. [[0..<nverts g]])
     \<lparr>g_vs = [new_vertex ''a'', new_vertex ''b'', new_vertex ''c''],
      g_es = [ig_edge 0 1 1 None None, ig_edge 0 2 1 None None, ig_edge 1 2 1 None None]\<rparr> 0 [0, 1, 2] =
   Inr \<lparr>g_vs = [\<lparr>v_name = ''a,b,c'', v_weight = 3, v_subgraph = Some 0, v_x = Some 0, v_y = Some 0,
                  v_community = Some 0, v_node = Some 0\<rparr>], g_es = []\<rparr>"
  by code_simp

text \<open>
  After \<open>simplify\<close> no edge is a loop and the edge pairs are strictly increasing, so
  no two edges join the same pair.
\<close>

theorem simplify_simple:
  "(\<forall>e\<in>set (g_es (simplify g)). e_src e \<noteq> e_tgt e) \<and> sorted_wrt (<) (map ekey (g_es (simplify g)))"
  using simplify_no_loops by (simp add: simplify_keys)

theorem simplify_simple_witness:
  "list_all (\<lambda>e. e_src e \<noteq> e_tgt e) (g_es (simplify \<lparr>g_vs = [new_vertex ''a'', new_vertex ''b'', new_vertex ''c''],
          g_es = [ig_edge 0 1 1 None None, ig_edge 1 0 2 None None, ig_edge 2 2 5 None None]\<rparr>)) \<and>
   sorted_wrt (<) (map ekey (g_es (simplify \<lparr>g_vs = [new_vertex ''a'', new_vertex ''b'', new_vertex ''c''],
          g_es = [ig_edge 0 1 1 None None, ig_edge 1 0 2 None None, ig_edge 2 2 5 None None]\<rparr>)))"
  unfolding list_all_iff by (rule simplify_simple)

text \<open>
  \<open>simplify\<close> keeps the total edge weight of the non-loop edges: merging parallel
  edges sums their weights.
\<close>

theorem simplify_weight:
  "sum_list (map e_weight (g_es (simplify g))) =
     sum_list (map e_weight (filter (\<lambda>e. e_src e \<noteq> e_tgt e) (g_es g)))"
  by (rule simplify_weight_sum)

end
