(* ===== verification/Pipeline.thy ===== *)
theory Pipeline
  imports Component
begin

text \<open>
  The whole of \<open>_blast_to_graph\<close> in \<open>src/src/blast_to_graph.py\<close> (lines 20--218) as the
  composition of its stages: the hit filter, the edge builder, the graph assembler,
  the weak components, and the loop of lines 116--213 that processes every component
  and concatenates its vertex and edge tables. The output tables are the record
  \<open>tables\<close>: the node table is the list of vertex records (columns name, weight,
  subgraph, x, y, community, node) and the edge table the list of edge records (source,
  target, weight, subgraph, community). Writing them to disk (lines 215--216) is I/O
  and is not modelled. The end-to-end lemmas show that the pipeline does not raise on
  any input that passes the filter, given a layout and a clustering that respect
  igraph's contracts, and that the node table's total weight is the number of
  surviving nodes.
\<close>

record tables =
  node_df :: "vertex list"
  edge_df :: "edge list"

text \<open>
  Lines 205--213: \<open>if len(df) == 0: df = sub else: df = pd.concat([df, sub],
  ignore_index=True)\<close>.
\<close>

definition concat_df :: "'a list \<Rightarrow> 'a list \<Rightarrow> 'a list" where
  "concat_df df sub = (if df = [] then sub else df @ sub)"

text \<open>One iteration of the loop of line 116, with the tables of lines 188--213.\<close>

definition component_step ::
  "(graph \<Rightarrow> (real \<times> real) list) \<Rightarrow> (graph \<Rightarrow> nat list list) \<Rightarrow> graph \<Rightarrow> nat \<times> nat list \<Rightarrow>
   tables \<Rightarrow> py_error + tables" where
  "component_step layout cluster g kc t =
     (case process_component layout cluster g (fst kc) (snd kc) of
        Inl err \<Rightarrow> Inl err
      | Inr s \<Rightarrow> Inr \<lparr>node_df = concat_df (node_df t) (g_vs s), edge_df = concat_df (edge_df t) (g_es s)\<rparr>)"

text \<open>Lines 109--116: empty tables, then every component in order.\<close>

definition process_components ::
  "(graph \<Rightarrow> (real \<times> real) list) \<Rightarrow> (graph \<Rightarrow> nat list list) \<Rightarrow> graph \<Rightarrow> py_error + tables" where
  "process_components layout cluster g =
     fold_err (component_step layout cluster g) (enumerate 0 (connected_components g))
       \<lparr>node_df = [], edge_df = []\<rparr>"

text \<open>\<open>_blast_to_graph\<close> without the file cache and the CSV output.\<close>

definition blast_to_graph ::
  "string \<Rightarrow> string \<Rightarrow> blast_row list \<Rightarrow> (graph \<Rightarrow> (real \<times> real) list) \<Rightarrow> (graph \<Rightarrow> nat list list) \<Rightarrow>
   py_error + tables" where
  "blast_to_graph node_col edge_col rows layout cluster =
     (case hit_filter node_col edge_col rows of
        Inl err \<Rightarrow> Inl err
      | Inr hs \<Rightarrow>
          (case overlap_graph hs of
             Inl err \<Rightarrow> Inl err
           | Inr (names, es) \<Rightarrow>
               (case assemble names es of
                  Inl err \<Rightarrow> Inl err
                | Inr g \<Rightarrow> process_components layout cluster g)))"

text \<open>What igraph guarantees of the two library calls that are parameters.\<close>

definition layout_ok :: "(graph \<Rightarrow> (real \<times> real) list) \<Rightarrow> bool" where
  "layout_ok layout \<longleftrightarrow> (\<forall>g. length (layout g) = nverts g)"

definition cluster_ok :: "(graph \<Rightarrow> nat list list) \<Rightarrow> bool" where
  "cluster_ok cluster \<longleftrightarrow> (\<forall>g. \<forall>c\<in>set (cluster g). \<forall>v\<in>set c. v < nverts g)"

section \<open>Reference predicates\<close>

definition loopfree :: "graph \<Rightarrow> bool" where
  "loopfree g \<longleftrightarrow> (\<forall>e\<in>set (g_es g). e_src e \<noteq> e_tgt e)"

definition no_isolated :: "graph \<Rightarrow> bool" where
  "no_isolated g \<longleftrightarrow> (\<forall>v<nverts g. neighbors g v \<noteq> [])"

text \<open>What the attribute-setting steps keep: the edge endpoints and the vertex weights.\<close>

definition same_shape :: "graph \<Rightarrow> graph \<Rightarrow> bool" where
  "same_shape g' g \<longleftrightarrow> map ekey (g_es g') = map ekey (g_es g) \<and> map v_weight (g_vs g') = map v_weight (g_vs g)"

section \<open>Lemmas: the steps of a component keep its shape\<close>


lemma neighbors_ekey:
  "neighbors g v = sort (concat (map (\<lambda>(a, b). (if a = v then [b] else []) @ (if b = v then [a] else []))
                                    (map ekey (g_es g))))"
  by (simp add: neighbors_def ekey_def comp_def)

lemma same_shape_neighbors: "same_shape g' g \<Longrightarrow> neighbors g' = neighbors g"
  by (rule ext) (simp add: same_shape_def neighbors_ekey [of g'] neighbors_ekey [of g])

lemma same_shape_nverts: "same_shape g' g \<Longrightarrow> nverts g' = nverts g"
  unfolding same_shape_def by (metis length_map)

lemma same_shape_trans: "same_shape g1 g2 \<Longrightarrow> same_shape g2 g3 \<Longrightarrow> same_shape g1 g3"
  by (simp add: same_shape_def)

lemma same_shape_refl: "same_shape g g"
  by (simp add: same_shape_def)

lemma tag_subgraph_shape: "same_shape (tag_subgraph k g) g"
  by (simp add: same_shape_def tag_subgraph_def comp_def ekey_def)

lemma zip_coords_weight:
  "length xs = length cs \<Longrightarrow>
     map v_weight (map (\<lambda>(v, (x, y)). v\<lparr>v_x := Some x, v_y := Some y\<rparr>) (zip xs cs)) = map v_weight xs"
  by (induction xs cs rule: list_induct2) auto

lemma set_layout_Inr:
  assumes "length coords = nverts g"
  shows "\<exists>g'. set_layout coords g = Inr g' \<and> same_shape g' g"
proof -
  have "map v_weight (map (\<lambda>(v, (x, y)). v\<lparr>v_x := Some x, v_y := Some y\<rparr>) (zip (g_vs g) coords)) =
      map v_weight (g_vs g)"
    by (rule zip_coords_weight) (simp add: assms)
  with assms show ?thesis by (auto simp: set_layout_def same_shape_def)
qed

lemma map_weight_enumerate:
  "map (v_weight \<circ> (\<lambda>(i, v). if P i then v\<lparr>v_community := Some c\<rparr> else v)) (enumerate n vs) = map v_weight vs"
  by (induction vs arbitrary: n) auto

lemma set_community_Inr:
  assumes "\<forall>v\<in>set comm. v < nverts g"
  shows "\<exists>g'. set_community c comm g = Inr g' \<and> same_shape g' g"
proof -
  from assms have "\<not> (\<exists>v\<in>set comm. nverts g \<le> v)" by auto
  then show ?thesis
    by (simp add: set_community_def same_shape_def map_weight_enumerate ekey_def)
qed

lemma set_communities_Inr:
  assumes "\<forall>cm\<in>set cl. \<forall>v\<in>set cm. v < nverts g"
  shows "\<exists>g'. set_communities cl g = Inr g' \<and> same_shape g' g"
  unfolding set_communities_def
proof (rule fold_err_succeeds [where I = "\<lambda>s. same_shape s g"])
  fix x s assume x: "x \<in> set (enumerate 0 cl)" and sh: "same_shape s g"
  obtain c cm where xc: "x = (c, cm)" by (cases x)
  with x have "cm \<in> set cl" by (auto simp: in_set_enumerate_eq)
  with assms same_shape_nverts [OF sh] have "\<forall>v\<in>set cm. v < nverts s" by simp
  from set_community_Inr [OF this, of c] obtain s' where
    "set_community c cm s = Inr s'" "same_shape s' s" by blast
  with sh xc show "\<exists>s'. (\<lambda>(c, comm). set_community c comm) x s = Inr s' \<and> same_shape s' g"
    using same_shape_trans by auto
qed (rule same_shape_refl)

lemma nth_pos_of: "u \<in> set c \<Longrightarrow> pos_of c u < length c \<and> c ! pos_of c u = u"
  by (induction c) (auto simp: pos_of_def)

lemma pos_of_nth: "distinct c \<Longrightarrow> p < length c \<Longrightarrow> pos_of c (c ! p) = p"
  by (metis nth_pos_of nth_eq_iff_index_eq nth_mem)

lemma pos_of_inj: "a \<in> set c \<Longrightarrow> b \<in> set c \<Longrightarrow> pos_of c a = pos_of c b \<Longrightarrow> a = b"
  by (metis nth_pos_of)

lemma loopfree_neighbors: "loopfree g \<Longrightarrow> v \<notin> set (neighbors g v)"
  by (auto simp: loopfree_def set_neighbors adj_def)

lemma induced_loopfree:
  assumes "loopfree g"
  shows "loopfree (induced_subgraph g c)"
  unfolding loopfree_def
proof
  fix e' assume "e' \<in> set (g_es (induced_subgraph g c))"
  then obtain e where e: "e \<in> set (g_es g)" "e_src e \<in> set c" "e_tgt e \<in> set c"
    and e': "e' = ig_edge (pos_of c (e_src e)) (pos_of c (e_tgt e)) (e_weight e) (e_subgraph e) (e_community e)"
    by (auto simp: induced_subgraph_def)
  from assms e(1) have "e_src e \<noteq> e_tgt e" by (simp add: loopfree_def)
  with e(2,3) have "pos_of c (e_src e) \<noteq> pos_of c (e_tgt e)" by (metis pos_of_inj)
  with e' show "e_src e' \<noteq> e_tgt e'" by (simp add: ig_edge_def min_def max_def)
qed

lemma induced_edge:
  assumes "e \<in> set (g_es g)" and "e_src e \<in> set c" and "e_tgt e \<in> set c"
  shows "ig_edge (pos_of c (e_src e)) (pos_of c (e_tgt e)) (e_weight e) (e_subgraph e) (e_community e)
           \<in> set (g_es (induced_subgraph g c))"
  using assms by (force simp: induced_subgraph_def)

lemma induced_no_isolated:
  assumes "distinct c" and "\<forall>u\<in>set c. \<exists>w\<in>set c. (u, w) \<in> adj g"
  shows "no_isolated (induced_subgraph g c)"
  unfolding no_isolated_def
proof (intro allI impI)
  fix p assume "p < nverts (induced_subgraph g c)"
  then have p: "p < length c" by (simp add: induced_subgraph_def)
  let ?u = "c ! p"
  from p assms(2) obtain w where w: "w \<in> set c" "(?u, w) \<in> adj g" by (meson nth_mem)
  from w(2) obtain e where e: "e \<in> set (g_es g)"
    and ends: "(e_src e = ?u \<and> e_tgt e = w) \<or> (e_tgt e = ?u \<and> e_src e = w)"
    by (auto simp: adj_def)
  have u: "?u \<in> set c" using p by simp
  from ends u w(1) have "e_src e \<in> set c" "e_tgt e \<in> set c" by auto
  from ig_edge_neighbors [OF induced_edge [OF e this]] have
    nb: "pos_of c (e_tgt e) \<in> set (neighbors (induced_subgraph g c) (pos_of c (e_src e)))"
        "pos_of c (e_src e) \<in> set (neighbors (induced_subgraph g c) (pos_of c (e_tgt e)))" by simp_all
  have pu: "pos_of c ?u = p" by (rule pos_of_nth [OF assms(1) p])
  from ends nb pu show "neighbors (induced_subgraph g c) p \<noteq> []" by auto
qed

lemma induced_weights:
  "map v_weight (g_vs (induced_subgraph g c)) = map (\<lambda>v. v_weight (g_vs g ! v)) c"
  by (simp add: induced_subgraph_def)

lemma map_weight_node:
  "map (v_weight \<circ> (\<lambda>(i, v). v\<lparr>v_node := Some i\<rparr>)) (enumerate n vs) = map v_weight vs"
  by (induction vs arbitrary: n) auto

lemma node_index_simplify_weights:
  "map v_weight (g_vs (node_index (simplify g))) = map v_weight (g_vs g)"
  by (simp add: node_index_def simplify_def Let_def map_weight_node)

lemma process_component_Inr:
  assumes "layout_ok layout" and "cluster_ok cluster" and "loopfree g" and "distinct c"
    and "\<forall>u\<in>set c. \<exists>w\<in>set c. (u, w) \<in> adj g"
  shows "\<exists>s. process_component layout cluster g k c = Inr s \<and>
           sum_list (map v_weight (g_vs s)) = sum_list (map (\<lambda>v. v_weight (g_vs g ! v)) c)"
proof -
  let ?s0 = "induced_subgraph g c"
  let ?s1 = "tag_subgraph k ?s0"
  have sh1: "same_shape ?s1 ?s0" by (rule tag_subgraph_shape)
  from assms(1) have "length (layout ?s1) = nverts ?s1" by (simp add: layout_ok_def)
  from set_layout_Inr [OF this] obtain s2 where s2: "set_layout (layout ?s1) ?s1 = Inr s2" "same_shape s2 ?s1"
    by blast
  from assms(2) have "\<forall>cm\<in>set (cluster s2). \<forall>v\<in>set cm. v < nverts s2" by (simp add: cluster_ok_def)
  from set_communities_Inr [OF this] obtain s3 where s3: "set_communities (cluster s2) s2 = Inr s3" "same_shape s3 s2"
    by blast
  have sh: "same_shape s3 ?s0" using sh1 s2(2) s3(2) by (blast intro: same_shape_trans)
  have "no_isolated ?s0" by (rule induced_no_isolated [OF assms(4,5)])
  moreover have "loopfree ?s0" by (rule induced_loopfree [OF assms(3)])
  ultimately have pre: "\<forall>v<nverts s3. neighbors s3 v \<noteq> [] \<and> v \<notin> set (neighbors s3 v)"
    using same_shape_neighbors [OF sh] same_shape_nverts [OF sh] loopfree_neighbors
    by (simp add: no_isolated_def)
  let ?m = "map (\<lambda>v. Min (set (filter (\<lambda>u. vertex_key s3 u = vertex_key s3 v) [0..<nverts s3]))) [0..<nverts s3]"
  have m: "group_membership s3 = Inr ?m" by (rule group_membership_closed [OF pre])
  have "length ?m = nverts s3" by simp
  then obtain s4 where s4: "contract_vertices ?m s3 = Inr s4" by (simp add: contract_vertices_def)
  have "sum_list (map v_weight (g_vs (node_index (simplify s4)))) = sum_list (map v_weight (g_vs s4))"
    by (simp only: node_index_simplify_weights)
  also have "\<dots> = sum_list (map v_weight (g_vs s3))" by (rule contract_weight_sum [OF s4])
  also have "\<dots> = sum_list (map v_weight (g_vs ?s0))" using sh by (simp add: same_shape_def)
  also have "\<dots> = sum_list (map (\<lambda>v. v_weight (g_vs g ! v)) c)" by (simp only: induced_weights)
  finally have w: "sum_list (map v_weight (g_vs (node_index (simplify s4)))) = sum_list (map (\<lambda>v. v_weight (g_vs g ! v)) c)" .
  have "process_component layout cluster g k c = Inr (node_index (simplify s4))"
    by (simp only: process_component_def Let_def s2(1) s3(1) m s4 sum.case)
  with w show ?thesis by blast
qed

lemma concat_df_append: "concat_df df sub = df @ sub"
  by (simp add: concat_df_def)

lemma component_neighbor:
  assumes "wf_graph g" and "no_isolated g" and "c \<in> set (connected_components g)" and "u \<in> set c"
  shows "\<exists>w\<in>set c. (u, w) \<in> adj g"
proof -
  from assms(3,4) have "u \<in> set (concat (connected_components g))" by auto
  with components_cover [OF assms(1)] have "u < nverts g" by auto
  with assms(2) have "neighbors g u \<noteq> []" by (simp add: no_isolated_def)
  then have "hd (neighbors g u) \<in> set (neighbors g u)" by (rule hd_in_set)
  then have adj: "(u, hd (neighbors g u)) \<in> adj g" by (simp add: set_neighbors)
  have "set c = (adj g)\<^sup>* `` {u}" by (rule components_are_classes [OF assms(1,3,4)])
  with adj have "hd (neighbors g u) \<in> set c" by auto
  with adj show ?thesis by blast
qed

lemma component_distinct: "c \<in> set (connected_components g) \<Longrightarrow> distinct c"
  using comp_of_sorted by (auto simp: connected_components_def sorted_less_distinct)

lemma components_fold:
  assumes "layout_ok layout" and "cluster_ok cluster" and "wf_graph g" and "loopfree g" and "no_isolated g"
    and "\<forall>kc\<in>set ks. snd kc \<in> set (connected_components g)"
  shows "\<exists>t. fold_err (component_step layout cluster g) ks t0 = Inr t \<and>
           sum_list (map v_weight (node_df t)) =
             sum_list (map v_weight (node_df t0)) + sum_list (map (\<lambda>kc. sum_list (map (\<lambda>v. v_weight (g_vs g ! v)) (snd kc))) ks)"
  using assms(6)
proof (induction ks arbitrary: t0)
  case Nil
  then show ?case by simp
next
  case (Cons kc ks)
  then have c: "snd kc \<in> set (connected_components g)" by simp
  have "\<forall>u\<in>set (snd kc). \<exists>w\<in>set (snd kc). (u, w) \<in> adj g"
    using component_neighbor [OF assms(3,5) c] by blast
  from process_component_Inr [OF assms(1,2,4) component_distinct [OF c] this, of "fst kc"]
  obtain s where s: "process_component layout cluster g (fst kc) (snd kc) = Inr s"
    and w: "sum_list (map v_weight (g_vs s)) = sum_list (map (\<lambda>v. v_weight (g_vs g ! v)) (snd kc))"
    by blast
  let ?t1 = "\<lparr>node_df = concat_df (node_df t0) (g_vs s), edge_df = concat_df (edge_df t0) (g_es s)\<rparr>"
  have step: "component_step layout cluster g kc t0 = Inr ?t1" by (simp add: component_step_def s)
  from Cons.IH [of ?t1] Cons.prems obtain t where
    t: "fold_err (component_step layout cluster g) ks ?t1 = Inr t"
    "sum_list (map v_weight (node_df t)) = sum_list (map v_weight (node_df ?t1)) +
       sum_list (map (\<lambda>kc. sum_list (map (\<lambda>v. v_weight (g_vs g ! v)) (snd kc))) ks)"
    by auto
  from t(2) w have "sum_list (map v_weight (node_df t)) =
      sum_list (map v_weight (node_df t0)) + sum_list (map (\<lambda>kc. sum_list (map (\<lambda>v. v_weight (g_vs g ! v)) (snd kc))) (kc # ks))"
    by (simp add: concat_df_append)
  with step t(1) show ?case by simp
qed

lemma map_enumerate_snd: "map (\<lambda>kc. f (snd kc)) (enumerate n xs) = map f xs"
  by (induction xs arbitrary: n) auto

lemma sum_list_weights_nth:
  "sum_list (map (\<lambda>v. v_weight (g_vs g ! v)) [0..<nverts g]) = sum_list (map v_weight (g_vs g))"
proof -
  have "map (\<lambda>v. v_weight (g_vs g ! v)) [0..<nverts g] = map v_weight (map (\<lambda>v. g_vs g ! v) [0..<nverts g])"
    by (simp only: map_map comp_def)
  also have "\<dots> = map v_weight (g_vs g)" by (simp only: map_nth)
  finally show ?thesis by simp
qed

lemma process_components_Inr:
  assumes "layout_ok layout" and "cluster_ok cluster" and "wf_graph g" and "loopfree g" and "no_isolated g"
  shows "\<exists>t. process_components layout cluster g = Inr t \<and>
           sum_list (map v_weight (node_df t)) = sum_list (map v_weight (g_vs g))"
proof -
  let ?f = "\<lambda>v. v_weight (g_vs g ! v)"
  let ?cs = "connected_components g"
  have "\<forall>kc\<in>set (enumerate 0 ?cs). snd kc \<in> set ?cs" by (auto simp: in_set_enumerate_eq)
  from components_fold [OF assms this, of "\<lparr>node_df = [], edge_df = []\<rparr>"] obtain t where
    t: "process_components layout cluster g = Inr t"
       "sum_list (map v_weight (node_df t)) = sum_list (map (\<lambda>kc. sum_list (map ?f (snd kc))) (enumerate 0 ?cs))"
    by (auto simp: process_components_def)
  have "sum_list (map (\<lambda>kc. sum_list (map ?f (snd kc))) (enumerate 0 ?cs)) = sum_list (map (\<lambda>c. sum_list (map ?f c)) ?cs)"
    using map_enumerate_snd [of "\<lambda>c. sum_list (map ?f c)" 0 ?cs] by simp
  also have "\<dots> = sum_list (map ?f (concat ?cs))"
    by (simp only: sum_list_map_concat)
  also have "\<dots> = sum_list (map ?f [0..<nverts g])"
    using components_cover [OF assms(3)] by (intro sum_list_perm_distinct) auto
  also have "\<dots> = sum_list (map v_weight (g_vs g))" by (rule sum_list_weights_nth)
  finally show ?thesis using t by auto
qed

lemma assembled_loopfree:
  assumes "overlap_graph hs = Inr (names, es)"
  shows "loopfree \<lparr>g_vs = map new_vertex names, g_es = map (\<lambda>(i, j, w). ig_edge i j w None None) es\<rparr>"
  unfolding loopfree_def
proof
  fix e assume "e \<in> set (g_es \<lparr>g_vs = map new_vertex names, g_es = map (\<lambda>(i, j, w). ig_edge i j w None None) es\<rparr>)"
  then obtain i j w where ij: "(i, j, w) \<in> set es" and e: "e = ig_edge i j w None None" by auto
  from overlap_graph_edge_facts [OF assms ij] have "i < j" by simp
  with e show "e_src e \<noteq> e_tgt e" by (simp add: ig_edge_def)
qed


lemma blast_to_graph_runs:
  assumes "hit_filter node_col edge_col rows = Inr hs" and "layout_ok layout" and "cluster_ok cluster"
  shows "\<exists>names es t. overlap_graph hs = Inr (names, es) \<and>
           process_components layout cluster
             \<lparr>g_vs = map new_vertex names, g_es = map (\<lambda>(i, j, w). ig_edge i j w None None) es\<rparr> = Inr t \<and>
           blast_to_graph node_col edge_col rows layout cluster = Inr t \<and>
           sum_list (map v_weight (node_df t)) = sum_list (map v_weight (map new_vertex names))"
proof -
  obtain names es where ov: "overlap_graph hs = Inr (names, es)"
    using overlap_graph_succeeds by blast
  let ?g = "\<lparr>g_vs = map new_vertex names, g_es = map (\<lambda>(i, j, w). ig_edge i j w None None) es\<rparr>"
  have ni: "no_isolated ?g"
    using assembled_degree [OF ov] by (simp add: no_isolated_def)
  from process_components_Inr [OF assms(2,3) assembled_wf [OF ov] assembled_loopfree [OF ov] ni]
  obtain t where t: "process_components layout cluster ?g = Inr t"
    "sum_list (map v_weight (node_df t)) = sum_list (map v_weight (g_vs ?g))" by blast
  moreover have "blast_to_graph node_col edge_col rows layout cluster = Inr t"
    by (simp add: blast_to_graph_def assms(1) ov assemble_Inr [OF ov] t(1))
  ultimately show ?thesis using ov by auto
qed

section \<open>Properties\<close>

text \<open>
  C1. End to end: on any rows the hit filter accepts, and with a layout and a clustering
  that respect igraph's contracts, \<open>_blast_to_graph\<close> does not raise (in particular
  line 142 never indexes an empty neighbour list, since every component has two or more
  vertices) and the weights of the node table add up to the number of surviving nodes:
  contraction loses and invents no mass.
\<close>

theorem blast_to_graph_total_mass:
  assumes "hit_filter node_col edge_col rows = Inr hs" and "layout_ok layout" and "cluster_ok cluster"
  shows "\<exists>names es t. overlap_graph hs = Inr (names, es) \<and>
           blast_to_graph node_col edge_col rows layout cluster = Inr t \<and>
           sum_list (map v_weight (node_df t)) = length names"
proof -
  from blast_to_graph_runs [OF assms] obtain names es t where ov: "overlap_graph hs = Inr (names, es)"
    and t: "blast_to_graph node_col edge_col rows layout cluster = Inr t"
    and w: "sum_list (map v_weight (node_df t)) =
              sum_list (map v_weight (map new_vertex names))"
    by auto
  have "sum_list (map v_weight (map new_vertex names)) = length names"
    by (simp add: new_vertex_def comp_def sum_list_triv)
  with ov t w show ?thesis by auto
qed

theorem blast_to_graph_total_mass_witness:
  "\<exists>names es t.
     overlap_graph [\<lparr>hit_node = ''q1'', hit_edge = ''t'', hit_bitscore = 100, hit_top = 100, hit_perc = 1\<rparr>,
                    \<lparr>hit_node = ''q2'', hit_edge = ''t'', hit_bitscore = 95, hit_top = 95, hit_perc = 1\<rparr>]
       = Inr (names, es) \<and>
     blast_to_graph ''qacc'' ''sacc''
       [\<lparr>qacc = Some ''q1'', sacc = Some ''t'', bitscore = 100, evalue = 0, sscinames = None\<rparr>,
        \<lparr>qacc = Some ''q2'', sacc = Some ''t'', bitscore = 95, evalue = 0, sscinames = None\<rparr>]
       (\<lambda>g. replicate (nverts g) (0, 0)) (\<lambda>g. [[0..<nverts g]]) = Inr t \<and>
     sum_list (map v_weight (node_df t)) = length names"
proof -
  have run: "hit_filter ''qacc'' ''sacc''
       [\<lparr>qacc = Some ''q1'', sacc = Some ''t'', bitscore = 100, evalue = 0, sscinames = None\<rparr>,
        \<lparr>qacc = Some ''q2'', sacc = Some ''t'', bitscore = 95, evalue = 0, sscinames = None\<rparr>]
     = Inr [\<lparr>hit_node = ''q1'', hit_edge = ''t'', hit_bitscore = 100, hit_top = 100, hit_perc = 1\<rparr>,
            \<lparr>hit_node = ''q2'', hit_edge = ''t'', hit_bitscore = 95, hit_top = 95, hit_perc = 1\<rparr>]"
    by (simp add: hit_filter_eval)
  show ?thesis
    by (rule blast_to_graph_total_mass [OF run]) (simp_all add: layout_ok_def cluster_ok_def)
qed

end
