(* ===== verification/Viewer.thy ===== *)
theory Viewer
  imports Pipeline "HOL-Library.Multiset"
begin

text \<open>
  The Dash viewer: \<open>collapse_names\<close> of \<open>src/src/plot_graph.py\<close> (lines 11--31), which
  condenses the comma-joined names of a contracted vertex by genus, and the callbacks of
  \<open>src/app.py\<close> that do not only draw: the subgraph count (line 15), the point index of
  a click or hover (lines 126--129), the neighbour lookup of \<open>update_graph_data\<close>
  (lines 149--243), \<open>update_figure\<close> (lines 245--277: the redraw and the marker
  recolouring), the hovered row moved to the top of the neighbour table (lines 315--321),
  the clicked node's names (lines 330--335) and the subgraph navigation of
  \<open>choose_subgraph\<close> (lines 347--354), which is a state machine over the displayed index.
  The tables are those of \<open>Pipeline\<close>: node rows are vertex records, edge rows are
  numbered edge records (the pandas index after \<open>ignore_index\<close> concatenation).
  Of \<open>plot_subgraph\<close> (plot_graph.py, lines 36--101) the weight bins, the segments of
  the edge traces with their endpoint look-ups and the node markers are modelled; the
  plotly styles and the page layout are presentation and are not. The lemmas at the end
  connect the viewer to the pipeline: the tables of \<open>Pipeline\<close> give one subgroup per
  component, and every edge row of a subgraph joins two node rows of that subgraph.
\<close>

section \<open>Name collapsing (plot_graph.py, lines 11--31)\<close>

text \<open>\<open>name_string.replace("[", "").replace("]", "")\<close>.\<close>

definition strip_brackets :: "string \<Rightarrow> string" where
  "strip_brackets s = filter (\<lambda>c. c \<noteq> CHR ''['' \<and> c \<noteq> CHR '']'') s"

text \<open>Lines 16--20: the first word of a name and the rest joined by spaces.\<close>

definition genus_entry :: "string \<Rightarrow> string \<times> string" where
  "genus_entry name = (let words = py_split (CHR '' '') name in (hd words, join_str '' '' (tl words)))"

text \<open>The \<open>groups\<close> dict of lines 13--20, in insertion order.\<close>

definition genus_groups :: "string list \<Rightarrow> (string \<times> string list) list" where
  "genus_groups names = fold (\<lambda>name d. dict_append (fst (genus_entry name)) (snd (genus_entry name)) d) names []"

text \<open>Lines 24--29: a genus of at most three names keeps them, a larger one is counted.\<close>

definition render_group :: "string \<times> string list \<Rightarrow> string list" where
  "render_group kg =
     (if length (snd kg) \<le> 3 then map (\<lambda>item. fst kg @ '' '' @ item) (snd kg)
      else [fst kg @ '' ('' @ nat_str (length (snd kg)) @ '')''])"

text \<open>Line 12: the sorted names.\<close>

definition name_list :: "string \<Rightarrow> string list" where
  "name_list s = sort (py_split (CHR '','') (strip_brackets s))"

text \<open>Lines 23--29: the \<open>new_names\<close> list.\<close>

definition collapse_list :: "string \<Rightarrow> string list" where
  "collapse_list s = concat (map render_group (genus_groups (name_list s)))"

definition collapse_names :: "string \<Rightarrow> string \<Rightarrow> string" where
  "collapse_names s sep = join_str sep (collapse_list s)"

section \<open>Subgraph count and navigation (app.py, lines 15, 43 and 347--354)\<close>

text \<open>
  \<open>num_subgraphs = 0 if len(node_df) == 0 else int(node_df["subgraph"].max() + 1)\<close>:
  pandas skips missing values in \<open>max\<close>; when every value is missing the result is NaN and
  \<open>int\<close> raises \<open>ValueError\<close>.
\<close>

definition num_subgraphs :: "vertex list \<Rightarrow> py_error + nat" where
  "num_subgraphs nodes =
     (if nodes = [] then Inr 0
      else (case List.map_filter v_subgraph nodes of
              [] \<Rightarrow> Inl ValueError
            | ks \<Rightarrow> Inr (Suc (Max (set ks)))))"

text \<open>
  What the navigation callback sees: which button fired, the displayed index
  (1-based, line 43 starts it at \<open>min(1, num_subgraphs)\<close>) and the figure's click and
  hover data, which the callback resets.
\<close>

datatype nav_event = Prev_click | Next_click | Point_click nat | Point_hover nat

record view =
  view_index :: nat
  view_click :: "nat option"
  view_hover :: "nat option"

definition init_view :: "nat \<Rightarrow> view" where
  "init_view maxidx = \<lparr>view_index = min 1 maxidx, view_click = None, view_hover = None\<rparr>"

text \<open>\<open>choose_subgraph\<close>: \<open>None\<close> is Dash's \<open>no_update\<close>.\<close>

definition choose_subgraph :: "nav_event \<Rightarrow> nat \<Rightarrow> nat \<Rightarrow> nat option" where
  "choose_subgraph ev idx maxidx =
     (if ev = Prev_click \<and> 1 < idx then Some (idx - 1)
      else if ev = Next_click \<and> idx < maxidx then Some (idx + 1)
      else None)"

text \<open>
  One event of the page: a button runs \<open>choose_subgraph\<close> (an update also clears the
  click and hover data, lines 351 and 353); a click or hover on the figure is recorded.
\<close>

definition view_step :: "nat \<Rightarrow> view \<Rightarrow> nav_event \<Rightarrow> view" where
  "view_step maxidx v ev =
     (case ev of
        Point_click p \<Rightarrow> v\<lparr>view_click := Some p\<rparr>
      | Point_hover p \<Rightarrow> v\<lparr>view_hover := Some p\<rparr>
      | _ \<Rightarrow> (case choose_subgraph ev (view_index v) maxidx of
               None \<Rightarrow> v
             | Some i \<Rightarrow> \<lparr>view_index = i, view_click = None, view_hover = None\<rparr>))"

inductive reachable_view :: "nat \<Rightarrow> view \<Rightarrow> bool" where
  init: "reachable_view maxidx (init_view maxidx)"
| step: "reachable_view maxidx v \<Longrightarrow> reachable_view maxidx (view_step maxidx v ev)"

section \<open>Points and neighbours (app.py, lines 126--243)\<close>

text \<open>
  The figure's event data: absent, without a \<open>points\<close> entry, or the list of the
  \<open>pointIndex\<close> values of its points.
\<close>

definition get_point_index :: "nat list option option \<Rightarrow> int" where
  "get_point_index pd =
     (case pd of Some (Some pts) \<Rightarrow> if length pts = 1 then int (hd pts) else -1 | _ \<Rightarrow> -1)"

text \<open>
  Lines 170--171: the rows of one subgraph, edges with their table index (the edge
  table's index is its row number: every table is 0-based and the concatenation of
  line 212 ignores the index). A missing subgraph value (NaN) equals no integer.
\<close>

definition node_subdf :: "vertex list \<Rightarrow> int \<Rightarrow> vertex list" where
  "node_subdf nodes k = filter (\<lambda>v. map_option int (v_subgraph v) = Some k) nodes"

definition edge_subdf :: "edge list \<Rightarrow> int \<Rightarrow> (nat \<times> edge) list" where
  "edge_subdf edges k = filter (\<lambda>(i, e). map_option int (e_subgraph e) = Some k) (enumerate 0 edges)"

text \<open>
  Lines 202--227: for every edge at the clicked node id (missing when the row's
  \<open>node\<close> is NaN), the rows whose \<open>node\<close> value is the other end, as (point index,
  edge id, node id).
\<close>

definition adjacent_rows ::
  "vertex list \<Rightarrow> (nat \<times> edge) list \<Rightarrow> nat option \<Rightarrow> (nat \<times> nat \<times> nat) list" where
  "adjacent_rows nodes edges cid =
     concat (map (\<lambda>(eid, e). let a = (if Some (e_src e) = cid then e_tgt e else e_src e) in
                    map (\<lambda>(row, v). (row, eid, a))
                        (filter (\<lambda>(row, v). v_node v = Some a) (enumerate 0 nodes)))
                 (filter (\<lambda>(eid, e). Some (e_src e) = cid \<or> Some (e_tgt e) = cid) edges))"

text \<open>The trigger of \<open>update_graph_data\<close> (\<open>ctx.triggered_prop_ids\<close>), empty on the first call.\<close>

datatype trigger = Subgraph_trigger | Click_trigger | Hover_trigger | Table_trigger | No_trigger

text \<open>The \<open>graph-data\<close> store: a missing key is \<open>None\<close>.\<close>

record graph_data =
  gd_subgraph :: int
  gd_trigger :: trigger
  gd_current :: "(nat \<times> nat option) option"
  gd_neighbors :: "(nat \<times> nat \<times> nat) list"
  gd_hover :: "(nat \<times> nat option) option"

text \<open>
  Lines 177--183: a click on a row of the neighbour table selects the first node row
  whose \<open>node\<close> value is the row's id.
\<close>

definition table_click :: "vertex list \<Rightarrow> nat \<Rightarrow> int" where
  "table_click nodes rid =
     (case filter (\<lambda>(i, v). v_node v = Some rid) (enumerate 0 nodes) of
        [] \<Rightarrow> -1
      | (i, v) # _ \<Rightarrow> int i)"

text \<open>
  \<open>update_graph_data\<close> (lines 149--243) on the displayed index, the click and hover
  point indices (\<open>get_point_index\<close>) and the row id of the active table cell.
  \<open>Inr None\<close> is \<open>no_update\<close>; \<open>iloc\<close> past the last row raises \<open>IndexError\<close>.
\<close>

definition update_graph_data ::
  "vertex list \<Rightarrow> edge list \<Rightarrow> trigger \<Rightarrow> nat \<Rightarrow> int \<Rightarrow> int \<Rightarrow> nat \<Rightarrow>
   py_error + graph_data option" where
  "update_graph_data nodes edges trig idx click hover row_id =
     (let k = int idx - 1;
          base = \<lparr>gd_subgraph = k, gd_trigger = No_trigger, gd_current = None, gd_neighbors = [],
                  gd_hover = None\<rparr> in
      if trig = Subgraph_trigger then Inr (Some (base\<lparr>gd_trigger := Subgraph_trigger\<rparr>))
      else
        (let ns = node_subdf nodes k; es = edge_subdf edges k;
             ci = (if trig = Table_trigger then table_click ns row_id else click);
             hi = (if trig = Table_trigger then -1 else hover) in
         if ci \<le> -1 then Inr None
         else if int (length ns) \<le> ci then Inl IndexError
         else
           (let cid = v_node (ns ! nat ci);
                nbrs = adjacent_rows ns es cid;
                hovered = list_ex (\<lambda>(row, eid, nid). int row = hi) nbrs;
                data = base\<lparr>gd_current := Some (nat ci, cid), gd_neighbors := nbrs\<rparr> in
            if trig \<noteq> Hover_trigger then Inr (Some (data\<lparr>gd_trigger := trig\<rparr>))
            else if -1 < hi \<and> hovered then
              (if int (length ns) \<le> hi then Inl IndexError
               else Inr (Some (data\<lparr>gd_trigger := trig, gd_hover := Some (nat hi, v_node (ns ! nat hi))\<rparr>)))
            else Inr None)))"

section \<open>The neighbour table (app.py, lines 285--335)\<close>

text \<open>
  Lines 316--321: the first record that satisfies the test (its id is the hovered node)
  moves to the top, \<open>records.insert(0, records.pop(i))\<close>; without one the list stays.
\<close>

definition move_to_front :: "('a \<Rightarrow> bool) \<Rightarrow> 'a list \<Rightarrow> 'a list" where
  "move_to_front P xs =
     (let i = length (takeWhile (\<lambda>x. \<not> P x) xs) in
      if i < length xs then xs ! i # (take i xs @ drop (Suc i) xs) else xs)"

text \<open>
  Lines 330--335: the names of the clicked node, collapsed with line breaks; the
  \<open>iloc[0]\<close> of an empty selection raises \<open>IndexError\<close>.
\<close>

definition clicked_node_info :: "vertex list \<Rightarrow> graph_data \<Rightarrow> py_error + string" where
  "clicked_node_info nodes d =
     (case gd_current d of
        None \<Rightarrow> Inr []
      | Some (_, nid) \<Rightarrow>
          (case filter (\<lambda>v. map_option int (v_subgraph v) = Some (gd_subgraph d) \<and> v_node v = nid \<and>
                             nid \<noteq> None) nodes of
             [] \<Rightarrow> Inl IndexError
           | v # _ \<Rightarrow> Inr (collapse_names (v_name v) ''\<newline>'')))"

section \<open>Edge traces of the figure (plot_graph.py, lines 36--73)\<close>

text \<open>
  \<open>np.digitize(w, np.linspace(lo, hi, 6))\<close> (lines 46--47): the number of the six
  evenly spaced bin edges at or below \<open>w\<close>.
\<close>

definition weight_bin :: "real \<Rightarrow> real \<Rightarrow> real \<Rightarrow> nat" where
  "weight_bin lo hi w = length (filter (\<lambda>j. lo + real j * (hi - lo) / 5 \<le> w) [0..<6])"

text \<open>
  Lines 56--57: \<open>node_subdf[node_subdf["node"] == n].iloc[0, :]\<close>, \<open>IndexError\<close> when no
  row has that node id.
\<close>

definition endpoint_row :: "vertex list \<Rightarrow> nat \<Rightarrow> py_error + vertex" where
  "endpoint_row ns n = (case filter (\<lambda>v. v_node v = Some n) ns of [] \<Rightarrow> Inl IndexError | v # _ \<Rightarrow> Inr v)"

text \<open>Lines 55--64: the coordinates of both ends of one edge (NaN is \<open>None\<close>).\<close>

type_synonym segment = "(real option \<times> real option) \<times> (real option \<times> real option)"

definition edge_segment :: "vertex list \<Rightarrow> edge \<Rightarrow> py_error + segment" where
  "edge_segment ns e =
     (case endpoint_row ns (e_src e) of
        Inl err \<Rightarrow> Inl err
      | Inr s \<Rightarrow> (case endpoint_row ns (e_tgt e) of
                   Inl err \<Rightarrow> Inl err
                 | Inr t \<Rightarrow> Inr ((v_x s, v_y s), (v_x t, v_y t))))"

text \<open>
  Lines 37--73 without the plotly objects: no trace for an empty subgraph; otherwise one
  trace per weight bin, in the bin order of \<open>groupby("bin")\<close>, holding the segments of
  that bin's edges in table order (the line width is \<open>0.5 * bin + 0.1\<close>).
\<close>

definition edge_traces :: "vertex list \<Rightarrow> (nat \<times> edge) list \<Rightarrow> py_error + (nat \<times> segment list) list" where
  "edge_traces ns es =
     (if ns = [] then Inr []
      else
        (let ws = map (\<lambda>(i, e). e_weight e) es; lo = Min (set ws); hi = Max (set ws);
             bin = (\<lambda>(i, e). weight_bin lo hi (e_weight e)) in
         map_err (\<lambda>b. case map_err (\<lambda>(i, e). edge_segment ns e) (filter (\<lambda>ie. bin ie = b) es) of
                         Inl err \<Rightarrow> Inl err
                       | Inr segs \<Rightarrow> Inr (b, segs))
                 (sort (remdups (map bin es)))))"

section \<open>The node trace and the figure (plot_graph.py, lines 36--101)\<close>

text \<open>
  Lines 77--83, one marker per node row: its position (NaN is \<open>None\<close>), the hover text
  (\<open>collapse_names\<close> with its default separator, the commas then replaced by line breaks),
  the size \<open>weight + 5\<close> and the line width \<open>0.05 * weight + 1\<close>; the colours are constants.
\<close>

record node_marker =
  nm_x :: "real option"
  nm_y :: "real option"
  nm_text :: string
  nm_size :: nat
  nm_linewidth :: real

definition node_trace :: "vertex list \<Rightarrow> node_marker list" where
  "node_trace ns =
     map (\<lambda>v. \<lparr>nm_x = v_x v, nm_y = v_y v,
               nm_text = py_replace '','' ''<br />'' (collapse_names (v_name v) '',''),
               nm_size = v_weight v + 5, nm_linewidth = 0.05 * real (v_weight v) + 1\<rparr>) ns"

text \<open>
  \<open>plot_subgraph\<close> without the plotly styles: an empty figure for a subgraph without node
  rows, otherwise the edge traces (which may raise) followed by the node trace.
\<close>

type_synonym figure = "(nat \<times> segment list) list \<times> node_marker list"

definition plot_subgraph :: "vertex list \<Rightarrow> (nat \<times> edge) list \<Rightarrow> py_error + figure" where
  "plot_subgraph ns es =
     (if ns = [] then Inr ([], [])
      else (case edge_traces ns es of Inl err \<Rightarrow> Inl err | Inr tr \<Rightarrow> Inr (tr, node_trace ns)))"

text \<open>The figure the page starts with (app.py, line 26): subgraph 0's rows.\<close>

definition initial_figure :: "vertex list \<Rightarrow> edge list \<Rightarrow> py_error + figure" where
  "initial_figure nodes edges = plot_subgraph (node_subdf nodes 0) (edge_subdf edges 0)"

section \<open>The figure callback (app.py, lines 245--277)\<close>

text \<open>
  \<open>update_figure\<close>: a subgraph change redraws the figure with \<open>plot_subgraph\<close> of the
  displayed subgraph's rows (\<open>Redraw\<close>); a click, hover or table trigger with a current
  node recolours the node markers: every row white, the clicked row yellow, the neighbour
  rows red, the hovered row pink, each an item assignment on the colour list that raises
  \<open>IndexError\<close> out of range; otherwise \<open>no_update\<close> (\<open>None\<close>).
\<close>

datatype figure_update = Redraw figure | Recolour "string list"

definition update_figure :: "vertex list \<Rightarrow> edge list \<Rightarrow> graph_data \<Rightarrow> py_error + figure_update option" where
  "update_figure nodes edges d =
     (let ns = node_subdf nodes (gd_subgraph d) in
      if gd_trigger d = Subgraph_trigger then
        (case plot_subgraph ns (edge_subdf edges (gd_subgraph d)) of
           Inl err \<Rightarrow> Inl err
         | Inr fig \<Rightarrow> Inr (Some (Redraw fig)))
      else if gd_trigger d = Click_trigger \<or> gd_trigger d = Hover_trigger \<or> gd_trigger d = Table_trigger then
        (case gd_current d of
           None \<Rightarrow> Inr None
         | Some (p, nid) \<Rightarrow>
             (case py_setitem p ''yellow'' (replicate (length ns) ''white'') of
                Inl err \<Rightarrow> Inl err
              | Inr c1 \<Rightarrow>
                  (case fold_err (\<lambda>(row, eid, n). py_setitem row ''red'') (gd_neighbors d) c1 of
                     Inl err \<Rightarrow> Inl err
                   | Inr c2 \<Rightarrow>
                       (case gd_hover d of
                          None \<Rightarrow> Inr (Some (Recolour c2))
                        | Some (h, n) \<Rightarrow>
                            (case py_setitem h ''pink'' c2 of
                               Inl err \<Rightarrow> Inl err
                             | Inr c3 \<Rightarrow> Inr (Some (Recolour c3)))))))
      else Inr None)"

text \<open>
  Reference predicate: every vertex and edge of a graph carries subgraph id \<open>k\<close> and
  every edge joins two vertices.
\<close>

definition tagged :: "nat \<Rightarrow> graph \<Rightarrow> bool" where
  "tagged k g \<longleftrightarrow> (\<forall>v\<in>set (g_vs g). v_subgraph v = Some k) \<and>
     (\<forall>e\<in>set (g_es g). e_subgraph e = Some k \<and> e_src e < nverts g \<and> e_tgt e < nverts g)"

text \<open>Example tables: one subgraph of two rows with an edge, and an empty vertex row.\<close>

abbreviation demo_nodes :: "vertex list" where
  "demo_nodes \<equiv>
     [\<lparr>v_name = ''[Bacillus subtilis],[Bacillus cereus]'', v_weight = 2, v_subgraph = Some 0, v_x = Some 0, v_y = Some 0,
       v_community = Some 0, v_node = Some 0\<rparr>,
      \<lparr>v_name = [], v_weight = 0, v_subgraph = None, v_x = None, v_y = None, v_community = None, v_node = Some 1\<rparr>,
      \<lparr>v_name = ''[Escherichia coli]'', v_weight = 1, v_subgraph = Some 0, v_x = Some 1, v_y = Some 1,
       v_community = Some 0, v_node = Some 2\<rparr>]"

abbreviation demo_edges :: "edge list" where
  "demo_edges \<equiv> [\<lparr>e_src = 0, e_tgt = 2, e_weight = 1.5, e_subgraph = Some 0, e_community = Some 0\<rparr>]"

section \<open>Lemmas: navigation\<close>

lemma choose_subgraph_range:
  "choose_subgraph ev i m = Some j \<Longrightarrow> i \<le> m \<Longrightarrow> 1 \<le> j \<and> j \<le> m"
  by (auto simp: choose_subgraph_def split: if_splits)

lemma view_index_step:
  "view_index (view_step m v ev) = (case choose_subgraph ev (view_index v) m of None \<Rightarrow> view_index v | Some i \<Rightarrow> i)"
  by (cases ev) (simp_all add: view_step_def choose_subgraph_def)

lemma reachable_view_foldl:
  "reachable_view m v \<Longrightarrow> reachable_view m (foldl (view_step m) v evs)"
  by (induction evs arbitrary: v) (simp_all add: reachable_view.step)

lemma next_clicks_index:
  "n < m \<Longrightarrow> view_index (foldl (view_step m) (init_view m) (replicate n Next_click)) = Suc n"
proof (induction n)
  case 0
  then show ?case by (simp add: init_view_def)
next
  case (Suc n)
  have "replicate (Suc n) Next_click = replicate n Next_click @ [Next_click]"
    by (simp add: replicate_append_same)
  with Suc show ?case by (simp add: view_index_step choose_subgraph_def)
qed

section \<open>Lemmas: neighbour lookup and the neighbour table\<close>

lemma takeWhile_first:
  "list_all (\<lambda>y. \<not> P y) ys \<Longrightarrow> P x \<Longrightarrow> takeWhile (\<lambda>y. \<not> P y) (ys @ x # zs) = ys"
  by (induction ys) auto

lemma move_to_front_absent:
  assumes "\<not> list_ex P xs"
  shows "move_to_front P xs = xs"
proof -
  from assms have tw: "takeWhile (\<lambda>x. \<not> P x) xs = xs" by (simp add: list_ex_iff)
  show ?thesis unfolding move_to_front_def Let_def tw by simp
qed

lemma adjacent_rows_iff:
  "(row, eid, nid) \<in> set (adjacent_rows ns es (Some c)) \<longleftrightarrow>
     row < length ns \<and> v_node (ns ! row) = Some nid \<and>
     (\<exists>e. (eid, e) \<in> set es \<and> (e_src e = c \<and> e_tgt e = nid \<or> e_tgt e = c \<and> e_src e = nid))"
  (is "?l \<longleftrightarrow> ?r")
proof
  show "?l \<Longrightarrow> ?r"
    by (auto simp: adjacent_rows_def in_set_enumerate_eq Let_def split: if_splits)
next
  assume ?r
  then obtain e where row: "row < length ns" "v_node (ns ! row) = Some nid" and e: "(eid, e) \<in> set es"
    and end_c: "e_src e = c \<and> e_tgt e = nid \<or> e_tgt e = c \<and> e_src e = nid" by blast
  from end_c have a: "(if e_src e = c then e_tgt e else e_src e) = nid" by auto
  from row have "(row, ns ! row) \<in> set (filter (\<lambda>(row, v). v_node v = Some nid) (enumerate 0 ns))"
    by (simp add: in_set_enumerate_eq)
  moreover from e end_c have "(eid, e) \<in> set (filter (\<lambda>(eid, e). Some (e_src e) = Some c \<or> Some (e_tgt e) = Some c) es)"
    by auto
  ultimately show ?l
    unfolding adjacent_rows_def set_concat set_map using a by (force simp: Let_def)
qed

lemma adjacent_rows_rows:
  "(row, eid, nid) \<in> set (adjacent_rows ns es cid) \<Longrightarrow> row < length ns \<and> v_node (ns ! row) = Some nid"
  by (auto simp: adjacent_rows_def in_set_enumerate_eq Let_def split: if_splits)

lemma edge_subdf_iff:
  "(eid, e) \<in> set (edge_subdf edges k) \<longleftrightarrow>
     eid < length edges \<and> e = edges ! eid \<and> map_option int (e_subgraph e) = Some k"
  by (auto simp: edge_subdf_def in_set_enumerate_eq)

lemma table_click_range:
  "table_click ns r = -1 \<or> (0 \<le> table_click ns r \<and> table_click ns r < int (length ns))"
proof (cases "filter (\<lambda>(i, v). v_node v = Some r) (enumerate 0 ns)")
  case (Cons iv rest)
  then have "iv \<in> set (filter (\<lambda>(i, v). v_node v = Some r) (enumerate 0 ns))" by simp
  then have "fst iv < length ns" by (auto simp: in_set_enumerate_eq)
  with Cons show ?thesis by (cases iv) (simp add: table_click_def)
qed (simp add: table_click_def)

lemma hovered_row:
  "list_ex (\<lambda>(row, eid, nid). int row = h) (adjacent_rows ns es cid) \<Longrightarrow> 0 \<le> h \<and> h < int (length ns)"
  by (auto simp: list_ex_iff dest!: adjacent_rows_rows)

lemma update_graph_data_current:
  assumes "update_graph_data nodes edges trig idx click hover r = Inr (Some d)" and "gd_current d = Some (p, cid)"
  shows "gd_subgraph d = int idx - 1 \<and> p < length (node_subdf nodes (gd_subgraph d)) \<and>
         v_node (node_subdf nodes (gd_subgraph d) ! p) = cid \<and>
         gd_neighbors d = adjacent_rows (node_subdf nodes (gd_subgraph d)) (edge_subdf edges (gd_subgraph d)) cid"
  using assms by (auto simp: update_graph_data_def Let_def split: if_splits)

lemma update_graph_data_hover:
  assumes "update_graph_data nodes edges trig idx click hover r = Inr (Some d)" and "gd_hover d = Some (h, x)"
  shows "h < length (node_subdf nodes (gd_subgraph d))"
  using assms by (auto simp: update_graph_data_def Let_def split: if_splits)

lemma fold_setitem_rows:
  assumes "\<forall>x\<in>set xs. fst x < length c"
  shows "\<exists>c'. fold_err (\<lambda>(row, eid, n). py_setitem row v) xs c = Inr c' \<and> length c' = length c"
  using assms
proof (induction xs arbitrary: c)
  case (Cons x xs)
  obtain row eid n where x: "x = (row, eid, n)" by (cases x) auto
  with Cons.prems have row: "row < length c" by simp
  then have step: "(\<lambda>(row, eid, n). py_setitem row v) x c = Inr (c[row := v])"
    by (simp add: x py_setitem_def)
  have "\<forall>y\<in>set xs. fst y < length (c[row := v])" using Cons.prems by simp
  from Cons.IH [OF this] obtain c' where
    c': "fold_err (\<lambda>(row, eid, n). py_setitem row v) xs (c[row := v]) = Inr c'" and l: "length c' = length c"
    by (metis length_list_update)
  have "fold_err (\<lambda>(row, eid, n). py_setitem row v) (x # xs) c = Inr c'"
    by (simp only: fold_err.simps step sum.case c')
  with l show ?case by blast
qed simp

section \<open>Lemmas: name collapsing\<close>

lemma py_split_nonempty: "py_split c s \<noteq> []"
  by (induction c s rule: py_split.induct) (auto split: list.split)

lemma join_str_Cons_Cons: "join_str sep ((x # w) # ws) = x # join_str sep (w # ws)"
  by (cases ws) simp_all

lemma join_py_split: "join_str [c] (py_split c s) = s"
proof (induction c s rule: py_split.induct)
  case (2 sep c cs)
  obtain w ws where ps: "py_split sep cs = w # ws"
    using py_split_nonempty by (metis neq_Nil_conv)
  with 2 show ?case by (cases "c = sep") (simp_all add: join_str_Cons_Cons)
qed simp

lemma py_split_sep_tl: "c \<in> set s \<Longrightarrow> tl (py_split c s) \<noteq> []"
  by (induction c s rule: py_split.induct) (auto split: list.split simp: py_split_nonempty)

lemma genus_entry_join:
  assumes "CHR '' '' \<in> set n"
  shows "fst (genus_entry n) @ CHR '' '' # snd (genus_entry n) = n"
proof -
  obtain w ws where split: "py_split (CHR '' '') n = w # ws"
    using py_split_nonempty by (metis neq_Nil_conv)
  with py_split_sep_tl [OF assms] have "ws \<noteq> []" by simp
  then have "join_str '' '' (w # ws) = w @ '' '' @ join_str '' '' ws" by (cases ws) simp_all
  with join_py_split [of "CHR '' ''" n] split show ?thesis by (simp add: genus_entry_def)
qed

lemma dict_append_map_values:
  "dict_append k (f x) (map (\<lambda>(k, g). (k, map f g)) d) = map (\<lambda>(k, g). (k, map f g)) (dict_append k x d)"
  by (auto simp: dict_append_def image_iff case_prod_beta)

lemma genus_groups_ref:
  "genus_groups ns = map (\<lambda>(k, g). (k, map (snd \<circ> genus_entry) g)) (groups_ref (fst \<circ> genus_entry) ns)"
proof (induction ns rule: rev_induct)
  case Nil
  then show ?case by (simp add: genus_groups_def groups_ref_def first_keys_def)
next
  case (snoc n ns)
  have "genus_groups (ns @ [n]) = dict_append (fst (genus_entry n)) (snd (genus_entry n)) (genus_groups ns)"
    by (simp add: genus_groups_def)
  also have "\<dots> = dict_append ((fst \<circ> genus_entry) n) ((snd \<circ> genus_entry) n)
      (map (\<lambda>(k, g). (k, map (snd \<circ> genus_entry) g)) (groups_ref (fst \<circ> genus_entry) ns))"
    by (simp add: snoc.IH o_def)
  also have "\<dots> = map (\<lambda>(k, g). (k, map (snd \<circ> genus_entry) g))
      (dict_append ((fst \<circ> genus_entry) n) n (groups_ref (fst \<circ> genus_entry) ns))"
    by (rule dict_append_map_values)
  finally show ?case by (simp only: dict_append_groups)
qed

lemma mset_as_sum_list: "mset xs = sum_list (map (\<lambda>x. {#x#}) xs)"
  by (induction xs) auto

lemma sum_list_ones: "sum_list (map (\<lambda>_. Suc 0) xs) = length xs"
  by (induction xs) auto

lemma groups_concat_mset:
  assumes "distinct K" and "key ` set xs \<subseteq> set K"
  shows "mset (concat (map (\<lambda>k. filter (\<lambda>x. key x = k) xs) K)) = mset xs"
proof -
  have "mset (concat (map (\<lambda>k. filter (\<lambda>x. key x = k) xs) K)) =
      sum_list (map (\<lambda>k. mset (filter (\<lambda>x. key x = k) xs)) K)"
    by (induction K) auto
  also have "\<dots> = mset xs"
    using sum_list_group [OF assms, of "\<lambda>x. {#x#}"] by (simp add: mset_as_sum_list [symmetric])
  finally show ?thesis .
qed

lemma groups_lengths:
  "sum_list (map (\<lambda>k. length (filter (\<lambda>x. key x = k) xs)) (first_keys (map key xs))) = length xs"
  using sum_list_group [of "first_keys (map key xs)" key xs "\<lambda>_. Suc 0"]
  by (simp add: first_keys_def sum_list_ones)

lemma render_group_length:
  "length (render_group kg) = (if length (snd kg) \<le> 3 then length (snd kg) else 1)"
  by (simp add: render_group_def)

lemma collapse_list_groups:
  "length (collapse_list s) =
     sum_list (map (\<lambda>k. length (render_group (k, map (snd \<circ> genus_entry)
        (filter (\<lambda>x. fst (genus_entry x) = k) (name_list s)))))
       (first_keys (map (fst \<circ> genus_entry) (name_list s))))"
  by (simp add: collapse_list_def genus_groups_ref groups_ref_def length_concat o_def)

section \<open>Lemmas: subgraph tags from the pipeline to the viewer\<close>

lemma zip_coords_subgraph:
  "length xs = length cs \<Longrightarrow>
     map (v_subgraph \<circ> (\<lambda>(v, x, y). v\<lparr>v_x := Some x, v_y := Some y\<rparr>)) (zip xs cs) = map v_subgraph xs"
  by (induction xs cs rule: list_induct2) auto

lemma set_layout_subgraphs:
  "set_layout cs g = Inr g' \<Longrightarrow> map v_subgraph (g_vs g') = map v_subgraph (g_vs g)"
  by (auto simp: set_layout_def zip_coords_subgraph split: if_splits)

lemma map_subgraph_enumerate:
  "map (v_subgraph \<circ> (\<lambda>(i, v). if P i then v\<lparr>v_community := Some c\<rparr> else v)) (enumerate n vs) = map v_subgraph vs"
  by (induction vs arbitrary: n) auto

lemma set_communities_subgraphs:
  assumes "set_communities cl g = Inr g'"
  shows "map v_subgraph (g_vs g') = map v_subgraph (g_vs g)"
proof (rule fold_err_invariant [where I = "\<lambda>s. map v_subgraph (g_vs s) = map v_subgraph (g_vs g)"])
  show "fold_err (\<lambda>(c, comm). set_community c comm) (enumerate 0 cl) g = Inr g'"
    using assms by (simp add: set_communities_def)
next
  fix x s s' assume "map v_subgraph (g_vs s) = map v_subgraph (g_vs g)"
    and "(\<lambda>(c, comm). set_community c comm) x s = Inr s'"
  then show "map v_subgraph (g_vs s') = map v_subgraph (g_vs g)"
    by (auto simp: set_community_def map_subgraph_enumerate split: prod.splits if_splits)
qed simp

lemma map_subgraph_node:
  "map (v_subgraph \<circ> (\<lambda>(i, v). v\<lparr>v_node := Some i\<rparr>)) (enumerate n vs) = map v_subgraph vs"
  by (induction vs arbitrary: n) auto

lemma node_index_simplify_subgraphs:
  "map v_subgraph (g_vs (node_index (simplify g))) = map v_subgraph (g_vs g)"
  by (simp add: node_index_def simplify_def Let_def map_subgraph_node)

lemma first_attr_const: "\<forall>x\<in>set xs. x = a \<Longrightarrow> first_attr xs = (if xs = [] then None else a)"
  by (cases xs) (auto simp: first_attr_def)

lemma contract_vertex_subgraph:
  assumes "contract_vertices m g = Inr g'" and "\<forall>v\<in>set (g_vs g). v_subgraph v = Some k" and "j < nverts g'"
  shows "v_subgraph (g_vs g' ! j) = (if members m j = [] then None else Some k)"
proof -
  note c = contract_vertices_Inr [OF assms(1)]
  have "\<forall>x\<in>set (map (\<lambda>v. v_subgraph (g_vs g ! v)) (members m j)). x = Some k"
    using assms(2) c by (auto simp: members_def)
  then have "first_attr (map (\<lambda>v. v_subgraph (g_vs g ! v)) (members m j)) =
      (if map (\<lambda>v. v_subgraph (g_vs g ! v)) (members m j) = [] then None else Some k)"
    by (rule first_attr_const)
  with c assms(3) show ?thesis by (simp add: combine_vertices_def o_def del: upt_Suc)
qed

lemma contract_subgraphs:
  assumes "contract_vertices m g = Inr g'" and "\<forall>v\<in>set (g_vs g). v_subgraph v = Some k"
  shows "(\<forall>v\<in>set (g_vs g'). v_subgraph v = None \<or> v_subgraph v = Some k) \<and>
         (m \<noteq> [] \<longrightarrow> (\<exists>v\<in>set (g_vs g'). v_subgraph v = Some k))"
proof -
  note sub = contract_vertex_subgraph [OF assms]
  have "\<exists>v\<in>set (g_vs g'). v_subgraph v = Some k" if "m \<noteq> []"
  proof -
    note c = contract_vertices_Inr [OF assms(1)]
    from that have mem: "m ! 0 \<in> set m" by simp
    with that c have lt: "m ! 0 < nverts g'" by (simp add: le_imp_less_Suc del: upt_Suc)
    from mem have "members m (m ! 0) \<noteq> []" by (simp add: members_empty_iff)
    with sub [OF lt] lt show ?thesis by (metis nth_mem)
  qed
  moreover have "v_subgraph v = None \<or> v_subgraph v = Some k" if "v \<in> set (g_vs g')" for v
    using that sub by (metis in_set_conv_nth)
  ultimately show ?thesis by blast
qed

lemma process_component_subgraphs:
  assumes "process_component layout cluster g k c = Inr s" and "c \<noteq> []"
  shows "set (map v_subgraph (g_vs s)) \<subseteq> {None, Some k} \<and> Some k \<in> set (map v_subgraph (g_vs s))"
proof -
  let ?s1 = "tag_subgraph k (induced_subgraph g c)"
  from assms(1) obtain s2 s3 m s4 where s2: "set_layout (layout ?s1) ?s1 = Inr s2"
    and s3: "set_communities (cluster s2) s2 = Inr s3" and m: "group_membership s3 = Inr m"
    and s4: "contract_vertices m s3 = Inr s4" and s: "s = node_index (simplify s4)"
    by (auto simp: process_component_def Let_def split: sum.splits)
  have eq: "map v_subgraph (g_vs s3) = map v_subgraph (g_vs ?s1)"
    using set_communities_subgraphs [OF s3] set_layout_subgraphs [OF s2] by simp
  have tag: "\<forall>v\<in>set (g_vs s3). v_subgraph v = Some k"
  proof
    fix v assume "v \<in> set (g_vs s3)"
    then have "v_subgraph v \<in> set (map v_subgraph (g_vs ?s1))" by (simp flip: eq)
    then show "v_subgraph v = Some k" by (auto simp: tag_subgraph_def)
  qed
  from map_eq_imp_length_eq [OF eq] have "nverts s3 = length c"
    by (simp add: tag_subgraph_def induced_subgraph_def)
  with contract_vertices_Inr [OF s4] assms(2) have "m \<noteq> []" by auto
  with contract_subgraphs [OF s4 tag] have
    "set (map v_subgraph (g_vs s4)) \<subseteq> {None, Some k} \<and> Some k \<in> set (map v_subgraph (g_vs s4))"
    by force
  then show ?thesis by (simp only: s node_index_simplify_subgraphs)
qed

lemma components_nonempty:
  assumes "wf_graph g" and "c \<in> set (connected_components g)"
  shows "c \<noteq> []"
proof -
  from assms obtain v where "v < nverts g" and "c = comp_of g v"
    by (auto simp: set_connected_components)
  with set_comp_of [OF assms(1)] show ?thesis by fastforce
qed

lemma process_components_rows:
  assumes "process_components layout cluster g = Inr t"
  shows "node_df t = concat (map (\<lambda>kc. case process_component layout cluster g (fst kc) (snd kc) of
                                    Inl _ \<Rightarrow> [] | Inr s \<Rightarrow> g_vs s) (enumerate 0 (connected_components g)))"
proof -
  have "node_df t = node_df \<lparr>node_df = [], edge_df = []\<rparr> @
      concat (map (\<lambda>kc. case process_component layout cluster g (fst kc) (snd kc) of
                           Inl _ \<Rightarrow> [] | Inr s \<Rightarrow> g_vs s) (enumerate 0 (connected_components g)))"
    using assms unfolding process_components_def
    by (rule fold_err_appends [rotated]) (auto simp: component_step_def concat_df_append split: sum.splits)
  then show ?thesis by simp
qed

lemma map_filter_concat_iff:
  "k \<in> set (List.map_filter f (concat (map R xs))) \<longleftrightarrow> (\<exists>y\<in>set xs. Some k \<in> set (map f (R y)))"
proof
  assume "k \<in> set (List.map_filter f (concat (map R xs)))"
  then obtain x y where "y \<in> set xs" "x \<in> set (R y)" "f x = Some k"
    unfolding set_map_filter_iff by auto
  then show "\<exists>y\<in>set xs. Some k \<in> set (map f (R y))" by (metis image_eqI set_map)
next
  assume "\<exists>y\<in>set xs. Some k \<in> set (map f (R y))"
  then obtain x y where "y \<in> set xs" "x \<in> set (R y)" "f x = Some k" by auto
  then show "k \<in> set (List.map_filter f (concat (map R xs)))"
    unfolding set_map_filter_iff by auto
qed

lemma process_components_subgraphs:
  assumes "process_components layout cluster g = Inr t" and "wf_graph g"
  shows "node_df t = [] \<longleftrightarrow> connected_components g = []"
    and "set (List.map_filter v_subgraph (node_df t)) = {..<length (connected_components g)}"
proof -
  let ?cs = "connected_components g"
  let ?R = "\<lambda>kc. case process_component layout cluster g (fst kc) (snd kc) of Inl _ \<Rightarrow> [] | Inr s \<Rightarrow> g_vs s"
  have each: "set (map v_subgraph (?R kc)) \<subseteq> {None, Some (fst kc)} \<and> Some (fst kc) \<in> set (map v_subgraph (?R kc))"
    if kc: "kc \<in> set (enumerate 0 ?cs)" for kc
  proof -
    from fold_err_Inr_each [OF assms(1) [unfolded process_components_def] kc] obtain s0 s1
      where "component_step layout cluster g kc s0 = Inr s1" by blast
    then obtain s where s: "process_component layout cluster g (fst kc) (snd kc) = Inr s"
      by (auto simp: component_step_def split: sum.splits)
    from kc have "snd kc \<in> set ?cs" by (auto simp: in_set_enumerate_eq) (metis nth_mem)
    from process_component_subgraphs [OF s components_nonempty [OF assms(2) this]] s show ?thesis by simp
  qed
  have rows: "node_df t = concat (map ?R (enumerate 0 ?cs))" by (rule process_components_rows [OF assms(1)])
  show "node_df t = [] \<longleftrightarrow> ?cs = []"
  proof
    assume "node_df t = []"
    show "?cs = []"
    proof (rule ccontr)
      assume "?cs \<noteq> []"
      then have mem: "(0, hd ?cs) \<in> set (enumerate 0 ?cs)" by (auto simp: in_set_enumerate_eq hd_conv_nth)
      have "Some 0 \<in> set (map v_subgraph (?R (0, hd ?cs)))" using each [OF mem] by simp
      then have "?R (0, hd ?cs) \<noteq> []" by (metis empty_iff list.set(1) list.simps(8))
      with mem have "concat (map ?R (enumerate 0 ?cs)) \<noteq> []"
        by (simp only: concat_eq_Nil_conv set_map) (metis (no_types, lifting) image_eqI)
      with rows \<open>node_df t = []\<close> show False by simp
    qed
  qed (simp add: rows)
  show "set (List.map_filter v_subgraph (node_df t)) = {..<length ?cs}"
  proof (rule set_eqI)
    fix k
    have "k \<in> set (List.map_filter v_subgraph (node_df t)) \<longleftrightarrow>
        (\<exists>kc\<in>set (enumerate 0 ?cs). Some k \<in> set (map v_subgraph (?R kc)))"
      by (simp only: rows map_filter_concat_iff)
    also have "\<dots> \<longleftrightarrow> (\<exists>kc\<in>set (enumerate 0 ?cs). fst kc = k)"
      using each by blast
    also have "\<dots> \<longleftrightarrow> k < length ?cs"
      by (auto simp: in_set_enumerate_eq) (metis fst_conv add_0 nth_enumerate_eq length_enumerate nth_mem)
    finally show "k \<in> set (List.map_filter v_subgraph (node_df t)) \<longleftrightarrow> k \<in> {..<length ?cs}" by simp
  qed
qed

lemma num_subgraphs_components:
  assumes "process_components layout cluster g = Inr t" and "wf_graph g"
  shows "num_subgraphs (node_df t) = Inr (length (connected_components g))"
proof (cases "connected_components g = []")
  case True
  with process_components_subgraphs(1) [OF assms] show ?thesis by (simp add: num_subgraphs_def)
next
  case False
  note set_ks = process_components_subgraphs(2) [OF assms]
  from False obtain n where n: "length (connected_components g) = Suc n" by (cases "connected_components g") auto
  with set_ks have "n \<in> set (List.map_filter v_subgraph (node_df t))" by simp
  then have ne: "List.map_filter v_subgraph (node_df t) \<noteq> []" by auto
  from False process_components_subgraphs(1) [OF assms] have "node_df t \<noteq> []" by simp
  moreover have "Max (set (List.map_filter v_subgraph (node_df t))) = n"
  proof -
    have "Max {..n} = n" by (rule Max_eqI) auto
    with set_ks n show ?thesis by (simp add: lessThan_Suc_atMost)
  qed
  ultimately show ?thesis using ne n by (auto simp: num_subgraphs_def split: list.split)
qed

section \<open>Lemmas: edge rows from the pipeline to the viewer\<close>

lemma tagged_transfer:
  assumes "set (map v_subgraph (g_vs g')) \<subseteq> set (map v_subgraph (g_vs g))" and "nverts g' = nverts g"
    and "\<forall>e'\<in>set (g_es g'). \<exists>e\<in>set (g_es g). e_subgraph e' = e_subgraph e \<and> ekey e' = ekey e"
    and "tagged k g"
  shows "tagged k g'"
  unfolding tagged_def
proof
  show "\<forall>v\<in>set (g_vs g'). v_subgraph v = Some k"
  proof
    fix v assume "v \<in> set (g_vs g')"
    then have "v_subgraph v \<in> set (map v_subgraph (g_vs g))" using assms(1) by auto
    with assms(4) show "v_subgraph v = Some k" by (auto simp: tagged_def)
  qed
  show "\<forall>e'\<in>set (g_es g'). e_subgraph e' = Some k \<and> e_src e' < nverts g' \<and> e_tgt e' < nverts g'"
  proof
    fix e' assume "e' \<in> set (g_es g')"
    with assms(3) obtain e where "e \<in> set (g_es g)" "e_subgraph e' = e_subgraph e" "ekey e' = ekey e" by blast
    with assms(2,4) show "e_subgraph e' = Some k \<and> e_src e' < nverts g' \<and> e_tgt e' < nverts g'"
      by (auto simp: tagged_def ekey_def)
  qed
qed

lemma tagged_induced: "tagged k (tag_subgraph k (induced_subgraph g c))"
  by (auto simp: tagged_def tag_subgraph_def induced_subgraph_def ig_edge_def nth_pos_of min_def max_def)

lemma set_layout_tagged:
  assumes "set_layout cs g = Inr g'" and "tagged k g"
  shows "tagged k g'"
proof (rule tagged_transfer [OF _ _ _ assms(2)])
  from set_layout_subgraphs [OF assms(1)] show "set (map v_subgraph (g_vs g')) \<subseteq> set (map v_subgraph (g_vs g))"
    by simp
  from map_eq_imp_length_eq [OF set_layout_subgraphs [OF assms(1)]] show "nverts g' = nverts g" by simp
  from assms(1) have "g_es g' = g_es g" by (auto simp: set_layout_def split: if_splits)
  then show "\<forall>e'\<in>set (g_es g'). \<exists>e\<in>set (g_es g). e_subgraph e' = e_subgraph e \<and> ekey e' = ekey e" by auto
qed

lemma set_community_tagged:
  assumes "set_community c comm g = Inr g'" and "tagged k g"
  shows "tagged k g'"
proof (rule tagged_transfer [OF _ _ _ assms(2)])
  from assms(1) have g': "g' = \<lparr>g_vs = map (\<lambda>(i, v). if i \<in> set comm then v\<lparr>v_community := Some c\<rparr> else v)
                          (enumerate 0 (g_vs g)),
                g_es = map (\<lambda>e. if e_src e \<in> set comm \<and> e_tgt e \<in> set comm
                                then e\<lparr>e_community := Some c\<rparr> else e) (g_es g)\<rparr>"
    by (simp add: set_community_def split: if_splits)
  have "map v_subgraph (g_vs g') = map v_subgraph (g_vs g)"
    by (simp add: g' map_subgraph_enumerate)
  then show "set (map v_subgraph (g_vs g')) \<subseteq> set (map v_subgraph (g_vs g))"
    and "nverts g' = nverts g" by (simp, metis length_map)
  show "\<forall>e'\<in>set (g_es g'). \<exists>e\<in>set (g_es g). e_subgraph e' = e_subgraph e \<and> ekey e' = ekey e"
    by (auto simp: g' ekey_def)
qed

lemma set_communities_tagged:
  assumes "set_communities cl g = Inr g'" and "tagged k g"
  shows "tagged k g'"
proof (rule fold_err_invariant [where I = "tagged k"])
  show "fold_err (\<lambda>(c, comm). set_community c comm) (enumerate 0 cl) g = Inr g'"
    using assms(1) by (simp add: set_communities_def)
next
  fix x s s' assume "tagged k s" and "(\<lambda>(c, comm). set_community c comm) x s = Inr s'"
  then show "tagged k s'" by (cases x) (simp add: set_community_tagged)
qed (rule assms(2))

lemma contract_tagged_edges:
  assumes "contract_vertices m g = Inr g'" and "tagged k g"
  shows "\<forall>e\<in>set (g_es g'). e_subgraph e = Some k \<and>
           e_src e < nverts g' \<and> v_subgraph (g_vs g' ! e_src e) = Some k \<and>
           e_tgt e < nverts g' \<and> v_subgraph (g_vs g' ! e_tgt e) = Some k"
proof
  note c = contract_vertices_Inr [OF assms(1)]
  have vs: "\<forall>v\<in>set (g_vs g). v_subgraph v = Some k" using assms(2) by (simp add: tagged_def)
  have ok: "m ! a < nverts g' \<and> v_subgraph (g_vs g' ! (m ! a)) = Some k" if a: "a < nverts g" for a
  proof -
    from a c have mem: "m ! a \<in> set m" by simp
    then have "m \<noteq> []" by auto
    with mem c have lt: "m ! a < nverts g'" by (simp add: le_imp_less_Suc del: upt_Suc)
    from a c have "a \<in> set (members m (m ! a))" by (simp add: members_def)
    then have "members m (m ! a) \<noteq> []" by auto
    with contract_vertex_subgraph [OF assms(1) vs lt] lt show ?thesis by simp
  qed
  fix e' assume "e' \<in> set (g_es g')"
  with c obtain e where e: "e \<in> set (g_es g)"
    and e': "e' = ig_edge (m ! e_src e) (m ! e_tgt e) (e_weight e) (e_subgraph e) (e_community e)" by auto
  from e assms(2) have "e_subgraph e = Some k" "e_src e < nverts g" "e_tgt e < nverts g" by (auto simp: tagged_def)
  with ok [of "e_src e"] ok [of "e_tgt e"] e' show "e_subgraph e' = Some k \<and>
           e_src e' < nverts g' \<and> v_subgraph (g_vs g' ! e_src e') = Some k \<and>
           e_tgt e' < nverts g' \<and> v_subgraph (g_vs g' ! e_tgt e') = Some k"
    by (simp add: ig_edge_def min_def max_def)
qed

lemma simplify_tagged_edges:
  assumes "\<forall>e\<in>set (g_es g). e_subgraph e = Some k \<and> P (e_src e) \<and> P (e_tgt e)"
  shows "\<forall>e\<in>set (g_es (simplify g)). e_subgraph e = Some k \<and> P (e_src e) \<and> P (e_tgt e)"
proof
  let ?es = "filter (\<lambda>e. e_src e \<noteq> e_tgt e) (g_es g)"
  fix e assume "e \<in> set (g_es (simplify g))"
  then obtain a b where ab: "(a, b) \<in> set (map ekey ?es)"
    and e: "e = (let grp = filter (\<lambda>e. ekey e = (a, b)) ?es in
          \<lparr>e_src = a, e_tgt = b, e_weight = sum_list (map e_weight grp),
           e_subgraph = first_attr (map e_subgraph grp), e_community = first_attr (map e_community grp)\<rparr>)"
    by (auto simp: simplify_es)
  from ab obtain e0 where e0: "e0 \<in> set ?es" "ekey e0 = (a, b)" by auto
  let ?grp = "filter (\<lambda>e. ekey e = (a, b)) ?es"
  have "\<forall>x\<in>set (map e_subgraph ?grp). x = Some k" using assms by auto
  then have "first_attr (map e_subgraph ?grp) = (if map e_subgraph ?grp = [] then None else Some k)"
    by (rule first_attr_const)
  moreover from e0 have "map e_subgraph ?grp \<noteq> []" by (auto simp: filter_empty_conv)
  moreover from e0 assms have "P a" "P b" by (auto simp: ekey_def)
  ultimately show "e_subgraph e = Some k \<and> P (e_src e) \<and> P (e_tgt e)" by (simp add: e Let_def)
qed

lemma process_component_edges:
  assumes "process_component layout cluster g k c = Inr s"
  shows "\<forall>e\<in>set (g_es s). e_subgraph e = Some k \<and>
           e_src e < nverts s \<and> v_subgraph (g_vs s ! e_src e) = Some k \<and>
           e_tgt e < nverts s \<and> v_subgraph (g_vs s ! e_tgt e) = Some k"
    and "\<forall>i<nverts s. v_node (g_vs s ! i) = Some i"
proof -
  let ?s1 = "tag_subgraph k (induced_subgraph g c)"
  from assms obtain s2 s3 m s4 where s2: "set_layout (layout ?s1) ?s1 = Inr s2"
    and s3: "set_communities (cluster s2) s2 = Inr s3" and s4: "contract_vertices m s3 = Inr s4"
    and s: "s = node_index (simplify s4)"
    by (auto simp: process_component_def Let_def split: sum.splits)
  have "tagged k s3" by (rule set_communities_tagged [OF s3 set_layout_tagged [OF s2 tagged_induced]])
  with contract_tagged_edges [OF s4] have
    "\<forall>e\<in>set (g_es s4). e_subgraph e = Some k \<and>
      (e_src e < nverts s4 \<and> v_subgraph (g_vs s4 ! e_src e) = Some k) \<and>
      (e_tgt e < nverts s4 \<and> v_subgraph (g_vs s4 ! e_tgt e) = Some k)" by simp
  from simplify_tagged_edges [OF this]
  have "\<forall>e\<in>set (g_es (simplify s4)). e_subgraph e = Some k \<and>
      (e_src e < nverts s4 \<and> v_subgraph (g_vs s4 ! e_src e) = Some k) \<and>
      (e_tgt e < nverts s4 \<and> v_subgraph (g_vs s4 ! e_tgt e) = Some k)" .
  moreover have es: "g_es s = g_es (simplify s4)" by (simp add: s node_index_def)
  moreover have n: "nverts s = nverts s4" by (simp add: s node_index_def simplify_def Let_def)
  moreover have "v_subgraph (g_vs s ! i) = v_subgraph (g_vs s4 ! i)" if "i < nverts s4" for i
    using that by (simp add: s node_index_def simplify_def Let_def nth_enumerate_eq)
  ultimately show "\<forall>e\<in>set (g_es s). e_subgraph e = Some k \<and>
           e_src e < nverts s \<and> v_subgraph (g_vs s ! e_src e) = Some k \<and>
           e_tgt e < nverts s \<and> v_subgraph (g_vs s ! e_tgt e) = Some k"
    by (simp only:) auto
  show "\<forall>i<nverts s. v_node (g_vs s ! i) = Some i"
    by (simp add: s node_index_def nth_enumerate_eq)
qed

lemma process_components_edge_rows:
  assumes "process_components layout cluster g = Inr t"
  shows "edge_df t = concat (map (\<lambda>kc. case process_component layout cluster g (fst kc) (snd kc) of
                                    Inl _ \<Rightarrow> [] | Inr s \<Rightarrow> g_es s) (enumerate 0 (connected_components g)))"
proof -
  have "edge_df t = edge_df \<lparr>node_df = [], edge_df = []\<rparr> @
      concat (map (\<lambda>kc. case process_component layout cluster g (fst kc) (snd kc) of
                           Inl _ \<Rightarrow> [] | Inr s \<Rightarrow> g_es s) (enumerate 0 (connected_components g)))"
    using assms unfolding process_components_def
    by (rule fold_err_appends [rotated]) (auto simp: component_step_def concat_df_append split: sum.splits)
  then show ?thesis by simp
qed

lemma component_output:
  assumes "process_components layout cluster g = Inr t" and "kc \<in> set (enumerate 0 (connected_components g))"
  obtains s where "process_component layout cluster g (fst kc) (snd kc) = Inr s"
    and "set (g_vs s) \<subseteq> set (node_df t)" and "set (g_es s) \<subseteq> set (edge_df t)"
proof -
  from fold_err_Inr_each [OF assms(1) [unfolded process_components_def] assms(2)] obtain s0 s1
    where "component_step layout cluster g kc s0 = Inr s1" by blast
  then obtain s where s: "process_component layout cluster g (fst kc) (snd kc) = Inr s"
    by (auto simp: component_step_def split: sum.splits)
  have "set (g_vs s) \<subseteq> set (node_df t)"
    using assms(2) s by (auto simp: process_components_rows [OF assms(1)])
  moreover have "set (g_es s) \<subseteq> set (edge_df t)"
    using assms(2) s by (auto simp: process_components_edge_rows [OF assms(1)])
  ultimately show ?thesis using s that by blast
qed

lemma table_edge_endpoints:
  assumes "process_components layout cluster g = Inr t" and "e \<in> set (edge_df t)" and "e_subgraph e = Some k"
  shows "\<exists>v\<in>set (node_df t). v_subgraph v = Some k \<and> v_node v = Some (e_src e)"
    and "\<exists>v\<in>set (node_df t). v_subgraph v = Some k \<and> v_node v = Some (e_tgt e)"
proof -
  from assms(2) obtain kc s where kc: "kc \<in> set (enumerate 0 (connected_components g))"
    and s: "process_component layout cluster g (fst kc) (snd kc) = Inr s" and e: "e \<in> set (g_es s)"
    by (auto simp: process_components_edge_rows [OF assms(1)] split: sum.splits) (metis)
  from component_output [OF assms(1) kc] s have sub: "set (g_vs s) \<subseteq> set (node_df t)" by auto
  note pe = process_component_edges [OF s]
  from pe(1) e assms(3) have k: "fst kc = k" by auto
  from pe e k have src: "e_src e < nverts s" "v_subgraph (g_vs s ! e_src e) = Some k"
    and tgt: "e_tgt e < nverts s" "v_subgraph (g_vs s ! e_tgt e) = Some k" by auto
  from src pe(2) sub show "\<exists>v\<in>set (node_df t). v_subgraph v = Some k \<and> v_node v = Some (e_src e)"
    by (metis nth_mem subsetD)
  from tgt pe(2) sub show "\<exists>v\<in>set (node_df t). v_subgraph v = Some k \<and> v_node v = Some (e_tgt e)"
    by (metis nth_mem subsetD)
qed

lemma endpoint_row_Inr: "\<exists>v\<in>set ns. v_node v = Some n \<Longrightarrow> \<exists>v. endpoint_row ns n = Inr v"
  by (auto simp: endpoint_row_def neq_Nil_conv filter_empty_conv split: list.split)

lemma edge_traces_Inr:
  assumes "\<forall>ie\<in>set es. \<exists>sg. edge_segment ns (snd ie) = Inr sg"
  shows "\<exists>tr. edge_traces ns es = Inr tr"
proof (cases "ns = []")
  case False
  let ?bin = "\<lambda>(i, e). weight_bin (Min (set (map (\<lambda>(i, e). e_weight e) es))) (Max (set (map (\<lambda>(i, e). e_weight e) es))) (e_weight e)"
  have "\<exists>y. (case map_err (\<lambda>(i, e). edge_segment ns e) (filter (\<lambda>ie. ?bin ie = b) es) of
                Inl err \<Rightarrow> Inl err | Inr segs \<Rightarrow> Inr (b, segs)) = Inr y" for b
  proof -
    have "\<exists>ys. map_err (\<lambda>(i, e). edge_segment ns e) (filter (\<lambda>ie. ?bin ie = b) es) = Inr ys"
      by (rule map_err_succeeds) (use assms in \<open>auto split: prod.splits\<close>)
    then show ?thesis by auto
  qed
  then have "\<exists>ys. map_err (\<lambda>b. case map_err (\<lambda>(i, e). edge_segment ns e) (filter (\<lambda>ie. ?bin ie = b) es) of
                Inl err \<Rightarrow> Inl err | Inr segs \<Rightarrow> Inr (b, segs)) (sort (remdups (map ?bin es))) = Inr ys"
    by (intro map_err_succeeds) blast
  with False show ?thesis by (simp add: edge_traces_def Let_def)
qed (simp add: edge_traces_def)

section \<open>Properties\<close>

text \<open>
  C2. Pipeline and viewer agree: on any rows the hit filter accepts, the node table that
  \<open>_blast_to_graph\<close> writes makes \<open>app.py\<close> (line 15) count exactly one subgroup per
  connected component of the assembled graph, even though the contraction adds rows with
  no subgraph value: every component's rows carry its index, and only those.
\<close>

theorem viewer_group_count:
  assumes "hit_filter node_col edge_col rows = Inr hs" and "layout_ok layout" and "cluster_ok cluster"
  shows "\<exists>names es g t. overlap_graph hs = Inr (names, es) \<and> assemble names es = Inr g \<and>
           blast_to_graph node_col edge_col rows layout cluster = Inr t \<and>
           num_subgraphs (node_df t) = Inr (length (connected_components g))"
proof -
  from blast_to_graph_runs [OF assms] obtain names es t where ov: "overlap_graph hs = Inr (names, es)"
    and pc: "process_components layout cluster
               \<lparr>g_vs = map new_vertex names, g_es = map (\<lambda>(i, j, w). ig_edge i j w None None) es\<rparr> = Inr t"
    and t: "blast_to_graph node_col edge_col rows layout cluster = Inr t"
    by blast
  from num_subgraphs_components [OF pc assembled_wf [OF ov]] assemble_Inr [OF ov] ov t show ?thesis by blast
qed

theorem viewer_group_count_witness:
  "\<exists>names es g t.
     overlap_graph [\<lparr>hit_node = ''q1'', hit_edge = ''t'', hit_bitscore = 100, hit_top = 100, hit_perc = 1\<rparr>,
                    \<lparr>hit_node = ''q2'', hit_edge = ''t'', hit_bitscore = 95, hit_top = 95, hit_perc = 1\<rparr>]
       = Inr (names, es) \<and> assemble names es = Inr g \<and>
     blast_to_graph ''qacc'' ''sacc''
       [\<lparr>qacc = Some ''q1'', sacc = Some ''t'', bitscore = 100, evalue = 0, sscinames = None\<rparr>,
        \<lparr>qacc = Some ''q2'', sacc = Some ''t'', bitscore = 95, evalue = 0, sscinames = None\<rparr>]
       (\<lambda>g. replicate (nverts g) (0, 0)) (\<lambda>g. [[0..<nverts g]]) = Inr t \<and>
     num_subgraphs (node_df t) = Inr (length (connected_components g))"
proof -
  have run: "hit_filter ''qacc'' ''sacc''
       [\<lparr>qacc = Some ''q1'', sacc = Some ''t'', bitscore = 100, evalue = 0, sscinames = None\<rparr>,
        \<lparr>qacc = Some ''q2'', sacc = Some ''t'', bitscore = 95, evalue = 0, sscinames = None\<rparr>]
     = Inr [\<lparr>hit_node = ''q1'', hit_edge = ''t'', hit_bitscore = 100, hit_top = 100, hit_perc = 1\<rparr>,
            \<lparr>hit_node = ''q2'', hit_edge = ''t'', hit_bitscore = 95, hit_top = 95, hit_perc = 1\<rparr>]"
    by (simp add: hit_filter_eval)
  show ?thesis
    by (rule viewer_group_count [OF run]) (simp_all add: layout_ok_def cluster_ok_def)
qed

text \<open>
  Pipeline and viewer agree on edges: on any rows the hit filter accepts, every edge
  row the pipeline writes for a subgraph has both endpoints among that subgraph's node
  rows, so the look-ups of plot_graph.py (lines 56--57) never raise when the viewer
  draws any subgroup, although contraction leaves node rows without a subgraph.
\<close>

theorem viewer_edges_drawable:
  assumes "hit_filter node_col edge_col rows = Inr hs" and "layout_ok layout" and "cluster_ok cluster"
  shows "\<exists>t. blast_to_graph node_col edge_col rows layout cluster = Inr t \<and>
           (\<forall>k. \<exists>tr. edge_traces (node_subdf (node_df t) k) (edge_subdf (edge_df t) k) = Inr tr)"
proof -
  from blast_to_graph_runs [OF assms] obtain names es t where
    pc: "process_components layout cluster
               \<lparr>g_vs = map new_vertex names, g_es = map (\<lambda>(i, j, w). ig_edge i j w None None) es\<rparr> = Inr t"
    and t: "blast_to_graph node_col edge_col rows layout cluster = Inr t"
    by blast
  have "\<exists>tr. edge_traces (node_subdf (node_df t) k) (edge_subdf (edge_df t) k) = Inr tr" for k
  proof (rule edge_traces_Inr, rule ballI)
    fix ie assume ie: "ie \<in> set (edge_subdf (edge_df t) k)"
    obtain i e where iep: "ie = (i, e)" by (cases ie)
    with ie have "(i, e) \<in> set (edge_subdf (edge_df t) k)" by simp
    then have "i < length (edge_df t) \<and> e = edge_df t ! i \<and> map_option int (e_subgraph e) = Some k"
      by (rule edge_subdf_iff [THEN iffD1])
    then obtain k' where e: "snd ie \<in> set (edge_df t)" and k': "e_subgraph (snd ie) = Some k'" "k = int k'"
      using iep by auto
    have "\<exists>v. endpoint_row (node_subdf (node_df t) k) (e_src (snd ie)) = Inr v"
      using table_edge_endpoints(1) [OF pc e k'(1)] k'(2) by (intro endpoint_row_Inr) (auto simp: node_subdf_def)
    moreover have "\<exists>v. endpoint_row (node_subdf (node_df t) k) (e_tgt (snd ie)) = Inr v"
      using table_edge_endpoints(2) [OF pc e k'(1)] k'(2) by (intro endpoint_row_Inr) (auto simp: node_subdf_def)
    ultimately show "\<exists>sg. edge_segment (node_subdf (node_df t) k) (snd ie) = Inr sg"
      by (auto simp: edge_segment_def)
  qed
  with t show ?thesis by blast
qed

theorem viewer_edges_drawable_witness:
  "\<exists>t. blast_to_graph ''qacc'' ''sacc''
       [\<lparr>qacc = Some ''q1'', sacc = Some ''t'', bitscore = 100, evalue = 0, sscinames = None\<rparr>,
        \<lparr>qacc = Some ''q2'', sacc = Some ''t'', bitscore = 95, evalue = 0, sscinames = None\<rparr>]
       (\<lambda>g. replicate (nverts g) (0, 0)) (\<lambda>g. [[0..<nverts g]]) = Inr t \<and>
     (\<forall>k. \<exists>tr. edge_traces (node_subdf (node_df t) k) (edge_subdf (edge_df t) k) = Inr tr)"
proof -
  have run: "hit_filter ''qacc'' ''sacc''
       [\<lparr>qacc = Some ''q1'', sacc = Some ''t'', bitscore = 100, evalue = 0, sscinames = None\<rparr>,
        \<lparr>qacc = Some ''q2'', sacc = Some ''t'', bitscore = 95, evalue = 0, sscinames = None\<rparr>]
     = Inr [\<lparr>hit_node = ''q1'', hit_edge = ''t'', hit_bitscore = 100, hit_top = 100, hit_perc = 1\<rparr>,
            \<lparr>hit_node = ''q2'', hit_edge = ''t'', hit_bitscore = 95, hit_top = 95, hit_perc = 1\<rparr>]"
    by (simp add: hit_filter_eval)
  show ?thesis
    by (rule viewer_edges_drawable [OF run]) (simp_all add: layout_ok_def cluster_ok_def)
qed

text \<open>
  C5. Navigation invariant: in every state the page can reach, the displayed index
  lies between 1 and the number of subgroups, and it is 0 exactly when there are none.
\<close>

theorem reachable_view_bounds:
  "reachable_view m v \<Longrightarrow> view_index v \<le> m \<and> (view_index v = 0 \<longleftrightarrow> m = 0)"
proof (induction rule: reachable_view.induct)
  case (init m)
  then show ?case by (cases m) (simp_all add: init_view_def)
next
  case (step m v ev)
  then show ?case
    using choose_subgraph_range [of ev "view_index v" m]
    by (auto simp: view_index_step split: option.split)
qed

theorem reachable_view_bounds_witness: "view_index (view_step 3 (init_view 3) Next_click) \<le> 3"
  using reachable_view_bounds [OF reachable_view.step [OF reachable_view.init]] by blast

text \<open>
  C6. Navigation liveness: every subgroup \<open>1..max\<close> is displayed after \<open>i - 1\<close>
  presses of the next button from the start page.
\<close>

theorem every_subgraph_reachable:
  assumes "1 \<le> i" and "i \<le> m"
  shows "reachable_view m (foldl (view_step m) (init_view m) (replicate (i - 1) Next_click)) \<and>
         view_index (foldl (view_step m) (init_view m) (replicate (i - 1) Next_click)) = i"
  using assms reachable_view_foldl [OF reachable_view.init] next_clicks_index [of "i - 1" m] by simp

theorem every_subgraph_reachable_witness:
  "view_index (foldl (view_step 3) (init_view 3) (replicate 2 Next_click)) = 3"
  using every_subgraph_reachable [of 3 3] by simp

text \<open>
  C23. The marker recolouring of \<open>update_figure\<close> never raises on what
  \<open>update_graph_data\<close> stores for a click, hover or table event: the clicked, neighbour
  and hovered rows are all rows of the displayed subgraph, and the colour list has one
  entry per row (a redraw is \<open>plot_subgraph\<close>, see \<open>plot_subgraph_total\<close>).
\<close>

theorem update_figure_total:
  assumes "update_graph_data nodes edges trig idx click hover r = Inr (Some d)"
    and "gd_trigger d \<noteq> Subgraph_trigger"
  shows "\<exists>u. update_figure nodes edges d = Inr u \<and>
           (case u of Some (Recolour cs) \<Rightarrow> length cs = length (node_subdf nodes (gd_subgraph d)) | _ \<Rightarrow> True)"
proof (cases "gd_current d")
  case None
  with assms(2) show ?thesis by (simp add: update_figure_def Let_def)
next
  case (Some pc)
  then obtain p cid where cur: "gd_current d = Some (p, cid)" by (cases pc) auto
  let ?ns = "node_subdf nodes (gd_subgraph d)"
  note facts = update_graph_data_current [OF assms(1) cur]
  from facts have p: "p < length ?ns" by blast
  from facts have nb: "gd_neighbors d = adjacent_rows ?ns (edge_subdf edges (gd_subgraph d)) cid" by blast
  have c1: "py_setitem p ''yellow'' (replicate (length ?ns) ''white'') =
      Inr ((replicate (length ?ns) ''white'')[p := ''yellow''])"
    using p by (simp add: py_setitem_def)
  have "\<forall>x\<in>set (gd_neighbors d). fst x < length ((replicate (length ?ns) ''white'')[p := ''yellow''])"
    using nb by (auto dest: adjacent_rows_rows)
  from fold_setitem_rows [OF this, of "''red''"] obtain c2 where
    c2: "fold_err (\<lambda>(row, eid, n). py_setitem row ''red'') (gd_neighbors d)
           ((replicate (length ?ns) ''white'')[p := ''yellow'']) = Inr c2" and len: "length c2 = length ?ns"
    by auto
  show ?thesis
  proof (cases "gd_hover d")
    case None
    with assms(2) cur c1 c2 len show ?thesis by (simp add: update_figure_def Let_def)
  next
    case (Some hx)
    then obtain h x where hv: "gd_hover d = Some (h, x)" by (cases hx) auto
    with update_graph_data_hover [OF assms(1) hv] len have "py_setitem h ''pink'' c2 = Inr (c2[h := ''pink''])"
      by (simp add: py_setitem_def)
    with assms(2) cur c1 c2 len hv show ?thesis by (simp add: update_figure_def Let_def)
  qed
qed

theorem update_figure_total_witness:
  "\<exists>u. update_figure demo_nodes demo_edges
          \<lparr>gd_subgraph = 0, gd_trigger = Click_trigger, gd_current = Some (0, Some 0),
           gd_neighbors = [(1, 0, 2)], gd_hover = None\<rparr> = Inr u \<and>
        (case u of Some (Recolour cs) \<Rightarrow> length cs = length (node_subdf demo_nodes
           (gd_subgraph \<lparr>gd_subgraph = 0, gd_trigger = Click_trigger, gd_current = Some (0, Some 0),
                         gd_neighbors = [(1, 0, 2)], gd_hover = None\<rparr>)) | _ \<Rightarrow> True)"
proof (rule update_figure_total)
  show "update_graph_data demo_nodes demo_edges Click_trigger 1 0 (-1) 0 =
     Inr (Some \<lparr>gd_subgraph = 0, gd_trigger = Click_trigger, gd_current = Some (0, Some 0),
                gd_neighbors = [(1, 0, 2)], gd_hover = None\<rparr>)"
    by (simp add: update_graph_data_def node_subdf_def edge_subdf_def adjacent_rows_def)
qed simp

text \<open>
  C4. Error paths of \<open>update_graph_data\<close>: the callback raises only when a figure
  click or hover event arrives with a click point index at or past the rows of the
  displayed subgraph (\<open>iloc\<close> of line 189); a table click, a subgraph change and the
  hover lookup of line 239 never raise.
\<close>

theorem update_graph_data_error_iff:
  "isl (update_graph_data nodes edges trig idx click hover r) \<longleftrightarrow>
     trig \<noteq> Subgraph_trigger \<and> trig \<noteq> Table_trigger \<and> int (length (node_subdf nodes (int idx - 1))) \<le> click"
  using table_click_range [of "node_subdf nodes (int idx - 1)" r]
  by (auto simp: update_graph_data_def Let_def dest: hovered_row)

theorem update_graph_data_error_iff_witness:
  "isl (update_graph_data demo_nodes demo_edges Click_trigger 1 2 (-1) 0) \<and>
   \<not> isl (update_graph_data demo_nodes demo_edges Table_trigger 1 2 (-1) 2)"
  using update_graph_data_error_iff [of demo_nodes demo_edges Click_trigger 1 2 "-1" 0]
    update_graph_data_error_iff [of demo_nodes demo_edges Table_trigger 1 2 "-1" 2]
  by (simp add: node_subdf_def)

text \<open>
  C3. Neighbour lookup: when the callback reports a clicked node, its point index is a
  row of the displayed subgraph holding that node, and the neighbour records are exactly
  the (row, edge id, node id) triples of an edge of the subgraph joining the clicked node
  to the node of that row, in either direction.
\<close>

theorem update_graph_data_neighbors:
  assumes "update_graph_data nodes edges trig idx click hover r = Inr (Some d)"
    and "gd_current d = Some (p, Some c)"
  shows "p < length (node_subdf nodes (gd_subgraph d)) \<and> v_node (node_subdf nodes (gd_subgraph d) ! p) = Some c \<and>
         set (gd_neighbors d) =
           {(row, eid, nid). row < length (node_subdf nodes (gd_subgraph d)) \<and>
              v_node (node_subdf nodes (gd_subgraph d) ! row) = Some nid \<and>
              eid < length edges \<and> map_option int (e_subgraph (edges ! eid)) = Some (gd_subgraph d) \<and>
              (e_src (edges ! eid) = c \<and> e_tgt (edges ! eid) = nid \<or> e_tgt (edges ! eid) = c \<and> e_src (edges ! eid) = nid)}"
  using update_graph_data_current [OF assms] by (auto simp: adjacent_rows_iff edge_subdf_iff)

theorem update_graph_data_neighbors_witness:
  "update_graph_data demo_nodes demo_edges Click_trigger 1 0 (-1) 0 =
     Inr (Some \<lparr>gd_subgraph = 0, gd_trigger = Click_trigger, gd_current = Some (0, Some 0),
                gd_neighbors = [(1, 0, 2)], gd_hover = None\<rparr>) \<and>
   (1, 0, 2) \<in> {(row, eid, nid). row < length (node_subdf demo_nodes 0) \<and>
      v_node (node_subdf demo_nodes 0 ! row) = Some nid \<and> eid < length demo_edges \<and>
      map_option int (e_subgraph (demo_edges ! eid)) = Some 0 \<and>
      (e_src (demo_edges ! eid) = 0 \<and> e_tgt (demo_edges ! eid) = nid \<or>
       e_tgt (demo_edges ! eid) = 0 \<and> e_src (demo_edges ! eid) = nid)}"
proof -
  let ?d = "\<lparr>gd_subgraph = 0, gd_trigger = Click_trigger, gd_current = Some (0, Some 0),
             gd_neighbors = [(1, 0, 2)], gd_hover = None\<rparr>"
  have run: "update_graph_data demo_nodes demo_edges Click_trigger 1 0 (-1) 0 = Inr (Some ?d)"
    by (simp add: update_graph_data_def node_subdf_def edge_subdf_def adjacent_rows_def)
  have cur: "gd_current ?d = Some (0, Some 0)" by simp
  note eq = conjunct2 [OF conjunct2 [OF update_graph_data_neighbors [OF run cur]]]
  have "(1, 0, 2) \<in> set (gd_neighbors ?d)" by simp
  then have "(1, 0, 2) \<in> {(row, eid, nid). row < length (node_subdf demo_nodes (gd_subgraph ?d)) \<and>
      v_node (node_subdf demo_nodes (gd_subgraph ?d) ! row) = Some nid \<and> eid < length demo_edges \<and>
      map_option int (e_subgraph (demo_edges ! eid)) = Some (gd_subgraph ?d) \<and>
      (e_src (demo_edges ! eid) = 0 \<and> e_tgt (demo_edges ! eid) = nid \<or>
       e_tgt (demo_edges ! eid) = 0 \<and> e_src (demo_edges ! eid) = nid)}"
    by (simp only: eq)
  with run show ?thesis by (simp only: graph_data.select_convs)
qed

text \<open>
  Hovered row first: the first neighbour record that matches the hovered node moves to
  the top and the other records keep their order.
\<close>

theorem move_to_front_hovered:
  assumes "list_all (\<lambda>y. \<not> P y) ys" and "P x"
  shows "move_to_front P (ys @ x # zs) = x # ys @ zs"
  using assms by (simp add: move_to_front_def takeWhile_first nth_append)

theorem move_to_front_hovered_witness: "move_to_front (\<lambda>x. x = (2::nat)) [1, 3, 2, 4] = [2, 1, 3, 4]"
  using move_to_front_hovered [of "\<lambda>x. x = (2::nat)" "[1, 3]" 2 "[4]"] by simp

text \<open>
  C39. Round trip of name collapsing: when every name has a genus and a species part and
  no genus has more than three names, the collapsed list is a permutation of the names.
\<close>

theorem collapse_list_keeps_names:
  assumes spaced: "list_all (\<lambda>n. CHR '' '' \<in> set n) (name_list s)"
    and small: "list_all (\<lambda>kg. length (snd kg) \<le> 3) (genus_groups (name_list s))"
  shows "mset (collapse_list s) = mset (name_list s)"
proof -
  let ?ns = "name_list s" and ?key = "\<lambda>x. fst (genus_entry x)"
  let ?K = "first_keys (map ?key ?ns)"
  have "render_group (k, map (snd \<circ> genus_entry) (filter (\<lambda>x. ?key x = k) ?ns)) =
        filter (\<lambda>x. ?key x = k) ?ns" if k: "k \<in> set ?K" for k
  proof -
    from small k have "length (filter (\<lambda>x. ?key x = k) ?ns) \<le> 3"
      by (auto simp: list_all_iff genus_groups_ref groups_ref_def o_def)
    moreover have "map (\<lambda>x. k @ '' '' @ snd (genus_entry x)) (filter (\<lambda>x. ?key x = k) ?ns) =
        filter (\<lambda>x. ?key x = k) ?ns"
      using spaced by (intro map_idI) (auto simp: list_all_iff dest: genus_entry_join)
    ultimately show ?thesis by (simp add: render_group_def o_def)
  qed
  note rg = this
  have "map render_group (genus_groups ?ns) =
      map (\<lambda>k. render_group (k, map (snd \<circ> genus_entry) (filter (\<lambda>x. ?key x = k) ?ns))) ?K"
    by (simp add: genus_groups_ref groups_ref_def o_def)
  also have "\<dots> = map (\<lambda>k. filter (\<lambda>x. ?key x = k) ?ns) ?K"
    by (rule map_cong [OF refl rg])
  finally have "collapse_list s = concat (map (\<lambda>k. filter (\<lambda>x. ?key x = k) ?ns) ?K)"
    by (simp add: collapse_list_def)
  also have "mset \<dots> = mset ?ns"
    by (rule groups_concat_mset) (auto simp: first_keys_def)
  finally show ?thesis .
qed

theorem collapse_list_keeps_names_witness:
  "mset (collapse_list ''[Bacillus subtilis],[Escherichia coli],[Bacillus cereus]'') =
   mset (name_list ''[Bacillus subtilis],[Escherichia coli],[Bacillus cereus]'')"
proof -
  have n: "name_list ''[Bacillus subtilis],[Escherichia coli],[Bacillus cereus]'' =
      [''Bacillus cereus'', ''Bacillus subtilis'', ''Escherichia coli'']"
    by (simp add: name_list_def strip_brackets_def)
  have "list_all (\<lambda>n. CHR '' '' \<in> set n) (name_list ''[Bacillus subtilis],[Escherichia coli],[Bacillus cereus]'')"
    by (simp add: n)
  moreover have "list_all (\<lambda>kg. length (snd kg) \<le> 3)
      (genus_groups (name_list ''[Bacillus subtilis],[Escherichia coli],[Bacillus cereus]''))"
    by (simp add: n genus_groups_def genus_entry_def dict_append_def)
  ultimately show ?thesis by (rule collapse_list_keeps_names)
qed

text \<open>
  Bounds of name collapsing: the collapsed list has at least one entry per genus and
  never more entries than names.
\<close>

theorem collapse_list_length_bounds:
  "length (first_keys (map (fst \<circ> genus_entry) (name_list s))) \<le> length (collapse_list s) \<and>
   length (collapse_list s) \<le> length (name_list s)"
proof
  let ?K = "first_keys (map (fst \<circ> genus_entry) (name_list s))"
  let ?g = "\<lambda>k. filter (\<lambda>x. fst (genus_entry x) = k) (name_list s)"
  have ne: "Suc 0 \<le> length (?g k)" if "k \<in> set ?K" for k
    using that by (auto simp: Suc_le_eq length_greater_0_conv filter_empty_conv)
  have "length ?K = sum_list (map (\<lambda>_. Suc 0) ?K)" by (simp add: sum_list_ones)
  also have "\<dots> \<le> sum_list (map (\<lambda>k. length (render_group (k, map (snd \<circ> genus_entry) (?g k)))) ?K)"
    by (rule sum_list_mono) (use ne in \<open>auto simp: render_group_length\<close>)
  finally show "length ?K \<le> length (collapse_list s)" by (simp add: collapse_list_groups o_def)
  have "sum_list (map (\<lambda>k. length (render_group (k, map (snd \<circ> genus_entry) (?g k)))) ?K) \<le>
      sum_list (map (\<lambda>k. length (?g k)) ?K)"
    by (rule sum_list_mono) (simp add: render_group_length)
  also have "\<dots> = length (name_list s)"
    using groups_lengths [of "fst \<circ> genus_entry" "name_list s"] by (simp add: o_def)
  finally show "length (collapse_list s) \<le> length (name_list s)" by (simp add: collapse_list_groups o_def)
qed

text \<open>
  A name of one word is rendered with a trailing space (\<open>key + " " + ""\<close>), and a
  genus keeps its names in sorted order.
\<close>

theorem collapse_names_example:
  "collapse_names ''[Bacillus subtilis],[Escherichia coli],[Bacillus]'' '','' =
     ''Bacillus ,Bacillus subtilis,Escherichia coli''"
  by (simp add: collapse_names_def collapse_list_def name_list_def strip_brackets_def genus_groups_def
      genus_entry_def dict_append_def render_group_def)

end
