(* ===== verification/Files.thy ===== *)
theory Files
  imports Viewer
begin

text \<open>
  The driver around the pipeline: \<open>main\<close> of \<open>src/blastgraph.py\<close> (lines 8--40) and
  \<open>blast_to_graph\<close> of \<open>src/src/blast_to_graph.py\<close> (lines 7--17, 215--216), and the
  loading of the tables by \<open>src/app.py\<close> (lines 7--13). The file system is a map from
  paths to file contents; a file holds what was written to it: the BLAST table (the
  rows \<open>read_csv\<close> returns, the header line of line 37 giving the column names), the
  node or edge table written by \<open>to_csv\<close>, or the pickle of the two tables. The BLAST
  run (a subprocess) is a parameter: the rows it writes for a query, a database, an
  E-value and a thread count, or nothing when it fails. The lemmas show what a run
  leaves on disk and what the viewer then loads: the tables of the pipeline on a fresh
  directory, the old tables whenever a graph file exists and \<open>--force\<close> is not given,
  and the BLAST table of a query named \<open>nodes.fa\<close> overwritten by the node table.
\<close>

section \<open>Names of the files (blastgraph.py, lines 23--30)\<close>

text \<open>Line 27: the file name without the text after its last dot.\<close>

definition prefix_of :: "string \<Rightarrow> string" where
  "prefix_of fasta = py_replace (CHR ''.'' # last (py_split (CHR ''.'') fasta)) [] fasta"

definition blast_file_of :: "string \<Rightarrow> string" where
  "blast_file_of fasta = prefix_of fasta @ ''.tsv''"

definition graph_file_of :: "string \<Rightarrow> string" where
  "graph_file_of fasta = prefix_of fasta @ ''.pickle''"

text \<open>Lines 21--25: a thread count out of \<open>1..cpu_count()\<close> means all cores.\<close>

definition clamp_threads :: "int \<Rightarrow> int \<Rightarrow> int" where
  "clamp_threads threads max_cores = (if threads \<le> 0 \<or> max_cores < threads then max_cores else threads)"

section \<open>Files\<close>

datatype disk_file =
  Blast_out "blast_row list"
| Node_csv "vertex list"
| Edge_csv "edge list"
| Pickle "vertex list" "edge list"

type_synonym fs = "string \<Rightarrow> disk_file option"

text \<open>
  \<open>pd.read_csv(file, sep="\t", nrows=500)\<close> followed by the look-up of the key columns:
  a missing file raises; a node or edge table has no \<open>sscinames\<close>/\<open>qacc\<close> column
  (\<open>KeyError\<close>); a pickle is not tab-separated text (a parser error, a
  \<open>ValueError\<close>).
\<close>

definition read_blast :: "fs \<Rightarrow> string \<Rightarrow> py_error + blast_row list" where
  "read_blast fs path =
     (case fs path of
        None \<Rightarrow> Inl FileNotFoundError
      | Some (Blast_out rows) \<Rightarrow> Inr rows
      | Some (Node_csv _) \<Rightarrow> Inl KeyError
      | Some (Edge_csv _) \<Rightarrow> Inl KeyError
      | Some (Pickle _ _) \<Rightarrow> Inl ValueError)"

text \<open>
  \<open>blast_to_graph\<close> (lines 7--17): without a graph file, or with \<open>force\<close>, the tables are
  computed, written as \<open>nodes.tsv\<close> and \<open>edges.tsv\<close> in the working directory (lines
  215--216) and then pickled to the graph file, node table first.
\<close>

definition cache_graph ::
  "(graph \<Rightarrow> (real \<times> real) list) \<Rightarrow> (graph \<Rightarrow> nat list list) \<Rightarrow> fs \<Rightarrow> string \<Rightarrow> string \<Rightarrow>
   string \<Rightarrow> string \<Rightarrow> bool \<Rightarrow> py_error + fs" where
  "cache_graph layout cluster fs blast_file graph_file node_col edge_col force =
     (if fs graph_file = None \<or> force then
        (case read_blast fs blast_file of
           Inl err \<Rightarrow> Inl err
         | Inr rows \<Rightarrow>
             (case blast_to_graph node_col edge_col rows layout cluster of
                Inl err \<Rightarrow> Inl err
              | Inr t \<Rightarrow> Inr (fs(''nodes.tsv'' \<mapsto> Node_csv (node_df t), ''edges.tsv'' \<mapsto> Edge_csv (edge_df t),
                              graph_file \<mapsto> Pickle (node_df t) (edge_df t)))))
      else Inr fs)"

text \<open>The parsed command line (lines 10--16).\<close>

record cli_args =
  arg_file :: string
  arg_db :: string
  arg_evalue :: string
  arg_threads :: int
  arg_force :: bool

text \<open>
  Lines 34--37: BLAST runs when its output is missing or \<open>--force\<close> is given; its rows,
  with the header line, become the BLAST file. A failed run writes nothing (the
  \<open>&&\<close> chain of line 37 stops before \<open>mv\<close>).
\<close>

definition run_blast ::
  "(string \<Rightarrow> string \<Rightarrow> string \<Rightarrow> int \<Rightarrow> blast_row list option) \<Rightarrow> int \<Rightarrow> cli_args \<Rightarrow> fs \<Rightarrow> fs" where
  "run_blast blastn max_cores args fs =
     (let bf = blast_file_of (arg_file args) in
      if fs bf = None \<or> arg_force args then
        (case blastn (arg_file args) (arg_db args) (arg_evalue args) (clamp_threads (arg_threads args) max_cores) of
           None \<Rightarrow> fs
         | Some rows \<Rightarrow> fs(bf \<mapsto> Blast_out rows))
      else fs)"

text \<open>\<open>main\<close> (lines 8--39): the graph is built with nodes from \<open>sscinames\<close> and edges from
  \<open>qacc\<close>.\<close>

definition main ::
  "(string \<Rightarrow> string \<Rightarrow> string \<Rightarrow> int \<Rightarrow> blast_row list option) \<Rightarrow> int \<Rightarrow>
   (graph \<Rightarrow> (real \<times> real) list) \<Rightarrow> (graph \<Rightarrow> nat list list) \<Rightarrow> cli_args \<Rightarrow> fs \<Rightarrow> py_error + fs" where
  "main blastn max_cores layout cluster args fs =
     cache_graph layout cluster (run_blast blastn max_cores args fs)
       (blast_file_of (arg_file args)) (graph_file_of (arg_file args)) ''sscinames'' ''qacc'' (arg_force args)"

text \<open>
  app.py, lines 7--13: \<open>pickle.load\<close> twice from the graph file; a missing file raises,
  and so does a file that is not a pickle.
\<close>

definition app_load :: "fs \<Rightarrow> string \<Rightarrow> py_error + vertex list \<times> edge list" where
  "app_load fs path =
     (case fs path of
        None \<Rightarrow> Inl FileNotFoundError
      | Some (Pickle nodes edges) \<Rightarrow> Inr (nodes, edges)
      | Some _ \<Rightarrow> Inl UnpicklingError)"


text \<open>Example run: one query whose hits name two species, and a command line.\<close>

abbreviation demo_hits :: "blast_row list" where
  "demo_hits \<equiv>
     [\<lparr>qacc = Some ''q1'', sacc = Some ''t1'', bitscore = 100, evalue = 0, sscinames = Some ''Homo sapiens''\<rparr>,
      \<lparr>qacc = Some ''q1'', sacc = Some ''t2'', bitscore = 95, evalue = 0, sscinames = Some ''Pan troglodytes''\<rparr>]"

abbreviation demo_args :: "string \<Rightarrow> cli_args" where
  "demo_args f \<equiv> \<lparr>arg_file = f, arg_db = ''nt'', arg_evalue = ''1e-80'', arg_threads = 0, arg_force = False\<rparr>"

section \<open>Lemmas: file names and the driver\<close>

lemma py_replace_suffix:
  assumes "old \<noteq> []" and "hd old \<notin> set p"
  shows "py_replace old new (p @ old) = p @ new"
  using assms(2)
proof (induction p)
  case Nil
  from assms(1) obtain c cs where "old = c # cs" by (cases old) auto
  then show ?case by simp
next
  case (Cons c p)
  from assms(1) Cons.prems have "take (length old) (c # p @ old) \<noteq> old"
    by (cases old) auto
  with Cons assms(1) show ?case by simp
qed

lemma prefix_of_name:
  assumes "CHR ''.'' \<notin> set p" and "CHR ''.'' \<notin> set ext"
  shows "prefix_of (p @ CHR ''.'' # ext) = p"
proof -
  have "py_split (CHR ''.'') (p @ CHR ''.'' # ext) = [p, ext]"
    using assms by (simp add: py_split_append py_split_nosep)
  then have "prefix_of (p @ CHR ''.'' # ext) = py_replace (CHR ''.'' # ext) [] (p @ CHR ''.'' # ext)"
    by (simp add: prefix_of_def)
  also have "\<dots> = p" using py_replace_suffix [of "CHR ''.'' # ext" p "[]"] assms(1) by simp
  finally show ?thesis .
qed

lemma py_split_sep_suffix: "\<exists>w ws. py_split sep (a @ sep # b) = w # ws @ py_split sep b"
proof (induction a)
  case (Cons c a)
  then obtain w ws where "py_split sep (a @ sep # b) = w # ws @ py_split sep b" by blast
  then show ?case by auto
qed simp

lemma py_split_last: "sep \<notin> set b \<Longrightarrow> last (py_split sep (a @ sep # b)) = b"
  using py_split_sep_suffix [of sep a b] by (auto simp: py_split_nosep)

lemma ext_no_overlap:
  assumes "CHR ''.'' \<notin> set ext" and "v \<noteq> []" and "length v < Suc (length ext)"
  shows "take (Suc (length ext)) (v @ CHR ''.'' # ext) \<noteq> CHR ''.'' # ext"
proof
  assume eq: "take (Suc (length ext)) (v @ CHR ''.'' # ext) = CHR ''.'' # ext"
  let ?n = "length v"
  have "drop ?n (take (Suc (length ext)) (v @ CHR ''.'' # ext)) = drop ?n (CHR ''.'' # ext)"
    using eq by simp
  moreover have "drop ?n (take (Suc (length ext)) (v @ CHR ''.'' # ext)) =
                   CHR ''.'' # take (length ext - ?n) ext"
    using assms(3) by (simp add: drop_take Suc_diff_le)
  moreover have "drop ?n (CHR ''.'' # ext) = drop (?n - 1) ext"
    using assms(2) by (cases v) simp_all
  ultimately have "CHR ''.'' \<in> set (drop (?n - 1) ext)"
    by (metis list.set_intros(1))
  with assms(1) show False by (meson in_set_dropD)
qed

lemma py_replace_Cons_del:
  "old \<noteq> [] \<Longrightarrow> py_replace old [] (c # xs) =
     (if take (length old) (c # xs) = old then py_replace old [] (drop (length old) (c # xs))
      else c # py_replace old [] xs)"
  by simp

lemma py_replace_ext_append:
  assumes "CHR ''.'' \<notin> set ext"
  shows "py_replace (CHR ''.'' # ext) [] (p @ CHR ''.'' # ext) = py_replace (CHR ''.'' # ext) [] p"
proof (induction "length p" arbitrary: p rule: less_induct)
  case less
  let ?old = "CHR ''.'' # ext"
  show ?case
  proof (cases p)
    case Nil
    then show ?thesis using py_replace_suffix [of ?old "[]" "[]"] by simp
  next
    case (Cons c cs)
    have L: "py_replace ?old [] (p @ ?old) =
        (if take (length ?old) (p @ ?old) = ?old then py_replace ?old [] (drop (length ?old) (p @ ?old))
         else c # py_replace ?old [] (cs @ ?old))"
      unfolding Cons append_Cons by (rule py_replace_Cons_del) simp
    have R: "py_replace ?old [] p =
        (if take (length ?old) p = ?old then py_replace ?old [] (drop (length ?old) p)
         else c # py_replace ?old [] cs)"
      unfolding Cons by (rule py_replace_Cons_del) simp
    have ih_cs: "py_replace ?old [] (cs @ ?old) = py_replace ?old [] cs"
      using less [of cs] Cons by simp
    show ?thesis
    proof (cases "length ?old \<le> length p")
      case True
      then have t: "take (length ?old) (p @ ?old) = take (length ?old) p"
        and d: "drop (length ?old) (p @ ?old) = drop (length ?old) p @ ?old" by simp_all
      have "length (drop (length ?old) p) < length p" using True by simp
      then have ih: "py_replace ?old [] (drop (length ?old) p @ ?old) = py_replace ?old [] (drop (length ?old) p)"
        by (rule less)
      show ?thesis by (simp only: L R t d ih ih_cs)
    next
      case False
      then have "take (length ?old) (p @ ?old) \<noteq> ?old"
        using ext_no_overlap [OF assms, of p] Cons by simp
      moreover have "take (length ?old) p \<noteq> ?old" using False by auto
      ultimately show ?thesis by (simp only: L R ih_cs if_False)
    qed
  qed
qed

lemma graph_blast_files_differ: "graph_file_of f \<noteq> blast_file_of f"
  by (simp add: graph_file_of_def blast_file_of_def)

lemma main_fresh:
  assumes "fs (blast_file_of (arg_file args)) = None" and "fs (graph_file_of (arg_file args)) = None"
    and "blastn (arg_file args) (arg_db args) (arg_evalue args) (clamp_threads (arg_threads args) max_cores) = Some rows"
    and "blast_to_graph ''sscinames'' ''qacc'' rows layout cluster = Inr t"
  shows "main blastn max_cores layout cluster args fs =
           Inr ((fs(blast_file_of (arg_file args) \<mapsto> Blast_out rows))
                  (''nodes.tsv'' \<mapsto> Node_csv (node_df t), ''edges.tsv'' \<mapsto> Edge_csv (edge_df t),
                   graph_file_of (arg_file args) \<mapsto> Pickle (node_df t) (edge_df t)))"
proof -
  have rb: "run_blast blastn max_cores args fs = fs(blast_file_of (arg_file args) \<mapsto> Blast_out rows)"
    using assms(1,3) by (simp add: run_blast_def)
  have "(fs(blast_file_of (arg_file args) \<mapsto> Blast_out rows)) (graph_file_of (arg_file args)) = None"
    using assms(2) graph_blast_files_differ by simp
  with assms(4) show ?thesis by (simp add: main_def rb cache_graph_def read_blast_def)
qed

lemma blast_to_graph_Inr:
  assumes "hit_filter node_col edge_col rows = Inr hs" and "layout_ok layout" and "cluster_ok cluster"
  obtains t where "blast_to_graph node_col edge_col rows layout cluster = Inr t"
  using blast_to_graph_runs [OF assms] by blast

lemma demo_hits_filter: "\<exists>hs. hit_filter ''sscinames'' ''qacc'' demo_hits = Inr hs"
  by (simp add: hit_filter_eval)

lemma demo_params: "layout_ok (\<lambda>g. replicate (nverts g) (0, 0))" "cluster_ok (\<lambda>g. [[0..<nverts g]])"
  by (simp_all add: layout_ok_def cluster_ok_def)

text \<open>
  File names round trip: for a FASTA name \<open>p.ext\<close> with no dot in \<open>p\<close> or
  \<open>ext\<close>, the prefix blastgraph.py computes is \<open>p\<close> (appending the extension gives the
  name back), the BLAST output is \<open>p.tsv\<close> and the graph file \<open>p.pickle\<close>.
\<close>

theorem file_names_roundtrip:
  assumes "CHR ''.'' \<notin> set p" and "CHR ''.'' \<notin> set ext"
  shows "prefix_of (p @ CHR ''.'' # ext) @ CHR ''.'' # ext = p @ CHR ''.'' # ext \<and>
         blast_file_of (p @ CHR ''.'' # ext) = p @ ''.tsv'' \<and> graph_file_of (p @ CHR ''.'' # ext) = p @ ''.pickle''"
  using prefix_of_name [OF assms] by (simp add: blast_file_of_def graph_file_of_def)

theorem file_names_roundtrip_witness:
  "prefix_of ''reads.fasta'' @ ''.fasta'' = ''reads.fasta'' \<and>
   blast_file_of ''reads.fasta'' = ''reads.tsv'' \<and> graph_file_of ''reads.fasta'' = ''reads.pickle''"
  using file_names_roundtrip [of "''reads''" "''fasta''"] by simp

text \<open>
  Thread count bounds: with at least one core, the number of BLAST threads lies in
  \<open>1..max_cores\<close>, and a request inside that range is kept.
\<close>

theorem clamp_threads_bounds:
  assumes "1 \<le> max_cores"
  shows "1 \<le> clamp_threads t max_cores \<and> clamp_threads t max_cores \<le> max_cores \<and>
         (0 < t \<and> t \<le> max_cores \<longrightarrow> clamp_threads t max_cores = t)"
  using assms by (auto simp: clamp_threads_def)

theorem clamp_threads_bounds_witness:
  "1 \<le> clamp_threads 0 8 \<and> clamp_threads 0 8 \<le> 8 \<and> clamp_threads 3 8 = 3"
  using clamp_threads_bounds [of 8 0] clamp_threads_bounds [of 8 3] by simp

text \<open>
  End to end on a fresh directory: when BLAST produces rows the hit filter accepts and
  the layout and clustering behave as igraph's do, \<open>main\<close> writes a graph file from which
  app.py loads exactly the node and edge tables of \<open>_blast_to_graph\<close>.
\<close>

theorem main_fresh_loads_tables:
  assumes "fs (blast_file_of (arg_file args)) = None" and "fs (graph_file_of (arg_file args)) = None"
    and "blastn (arg_file args) (arg_db args) (arg_evalue args) (clamp_threads (arg_threads args) max_cores) = Some rows"
    and "hit_filter ''sscinames'' ''qacc'' rows = Inr hs" and "layout_ok layout" and "cluster_ok cluster"
  shows "\<exists>fs' t. main blastn max_cores layout cluster args fs = Inr fs' \<and>
           blast_to_graph ''sscinames'' ''qacc'' rows layout cluster = Inr t \<and>
           app_load fs' (graph_file_of (arg_file args)) = Inr (node_df t, edge_df t)"
proof -
  obtain t where t: "blast_to_graph ''sscinames'' ''qacc'' rows layout cluster = Inr t"
    using blast_to_graph_Inr [OF assms(4-6)] .
  have "main blastn max_cores layout cluster args fs = Inr ((fs(blast_file_of (arg_file args) \<mapsto> Blast_out rows))
                  (''nodes.tsv'' \<mapsto> Node_csv (node_df t), ''edges.tsv'' \<mapsto> Edge_csv (edge_df t),
                   graph_file_of (arg_file args) \<mapsto> Pickle (node_df t) (edge_df t)))"
    using main_fresh [of fs args blastn max_cores rows layout cluster t] assms(1-3) t by blast
  with t show ?thesis by (auto simp: app_load_def)
qed

theorem main_fresh_loads_tables_witness:
  "\<exists>fs' t. main (\<lambda>_ _ _ _. Some demo_hits) 8 (\<lambda>g. replicate (nverts g) (0, 0)) (\<lambda>g. [[0..<nverts g]])
             (demo_args ''reads.fasta'') Map.empty = Inr fs' \<and>
           blast_to_graph ''sscinames'' ''qacc'' demo_hits (\<lambda>g. replicate (nverts g) (0, 0))
             (\<lambda>g. [[0..<nverts g]]) = Inr t \<and>
           app_load fs' ''reads.pickle'' = Inr (node_df t, edge_df t)"
proof -
  obtain hs where hs: "hit_filter ''sscinames'' ''qacc'' demo_hits = Inr hs" using demo_hits_filter by blast
  have names: "graph_file_of ''reads.fasta'' = ''reads.pickle''"
    by (simp add: graph_file_of_def prefix_of_def)
  show ?thesis
    using main_fresh_loads_tables [OF _ _ _ hs demo_params, of Map.empty "demo_args ''reads.fasta''"
        "\<lambda>_ _ _ _. Some demo_hits" 8] names by simp
qed

text \<open>
  C19. The cache is keyed on the graph file alone: without \<open>--force\<close>, an existing
  graph file is neither rebuilt nor checked against the BLAST output, and the viewer loads
  the old tables whatever BLAST has just written.
\<close>

theorem cached_graph_reused:
  assumes "fs (graph_file_of (arg_file args)) = Some (Pickle nodes edges)" and "\<not> arg_force args"
  shows "main blastn max_cores layout cluster args fs = Inr (run_blast blastn max_cores args fs) \<and>
         app_load (run_blast blastn max_cores args fs) (graph_file_of (arg_file args)) = Inr (nodes, edges)"
proof -
  have "run_blast blastn max_cores args fs (graph_file_of (arg_file args)) = Some (Pickle nodes edges)"
    using assms graph_blast_files_differ by (auto simp: run_blast_def Let_def split: option.split)
  with assms(2) show ?thesis by (simp add: main_def cache_graph_def app_load_def)
qed

theorem cached_graph_reused_witness:
  "main (\<lambda>_ _ _ _. None) 8 (\<lambda>g. replicate (nverts g) (0, 0)) (\<lambda>g. [[0..<nverts g]])
      (demo_args ''reads.fasta'') [''reads.pickle'' \<mapsto> Pickle [] []] =
     Inr (run_blast (\<lambda>_ _ _ _. None) 8 (demo_args ''reads.fasta'') [''reads.pickle'' \<mapsto> Pickle [] []]) \<and>
   app_load (run_blast (\<lambda>_ _ _ _. None) 8 (demo_args ''reads.fasta'') [''reads.pickle'' \<mapsto> Pickle [] []])
      ''reads.pickle'' = Inr ([], [])"
proof -
  have names: "graph_file_of ''reads.fasta'' = ''reads.pickle''"
    by (simp add: graph_file_of_def prefix_of_def)
  show ?thesis
    using cached_graph_reused [of "[''reads.pickle'' \<mapsto> Pickle [] []]" "demo_args ''reads.fasta''" "[]" "[]"
        "\<lambda>_ _ _ _. None" 8 "\<lambda>g. replicate (nverts g) (0, 0)" "\<lambda>g. [[0..<nverts g]]"] names by simp
qed

text \<open>
  C20. A FASTA file named \<open>nodes.fa\<close> gets the BLAST output file \<open>nodes.tsv\<close>, which
  the node table of the same run overwrites (blast_to_graph.py, line 215): once the graph
  file is gone, the next run without \<open>--force\<close> reads a node table as BLAST output and
  fails with \<open>KeyError\<close>.
\<close>

theorem nodes_fasta_clobbers_blast_output:
  assumes "arg_file args = ''nodes.fa''" and "\<not> arg_force args"
    and "fs ''nodes.tsv'' = None" and "fs ''nodes.pickle'' = None"
    and "blastn ''nodes.fa'' (arg_db args) (arg_evalue args) (clamp_threads (arg_threads args) max_cores) = Some rows"
    and "hit_filter ''sscinames'' ''qacc'' rows = Inr hs" and "layout_ok layout" and "cluster_ok cluster"
  shows "\<exists>fs' t. main blastn max_cores layout cluster args fs = Inr fs' \<and>
           blast_to_graph ''sscinames'' ''qacc'' rows layout cluster = Inr t \<and>
           fs' ''nodes.tsv'' = Some (Node_csv (node_df t)) \<and>
           main blastn max_cores layout cluster args (fs'(''nodes.pickle'' := None)) = Inl KeyError"
proof -
  have names: "blast_file_of (arg_file args) = ''nodes.tsv''" "graph_file_of (arg_file args) = ''nodes.pickle''"
    using assms(1) by (simp_all add: blast_file_of_def graph_file_of_def prefix_of_def)
  obtain t where t: "blast_to_graph ''sscinames'' ''qacc'' rows layout cluster = Inr t"
    using blast_to_graph_Inr [OF assms(6-8)] .
  let ?fs' = "(fs(''nodes.tsv'' \<mapsto> Blast_out rows))
                  (''nodes.tsv'' \<mapsto> Node_csv (node_df t), ''edges.tsv'' \<mapsto> Edge_csv (edge_df t),
                   ''nodes.pickle'' \<mapsto> Pickle (node_df t) (edge_df t))"
  have run: "main blastn max_cores layout cluster args fs = Inr ?fs'"
    using main_fresh [of fs args blastn max_cores rows layout cluster t] assms(1,3,4,5) t names by simp
  have "main blastn max_cores layout cluster args (?fs'(''nodes.pickle'' := None)) = Inl KeyError"
    using assms(2) names by (simp add: main_def run_blast_def cache_graph_def read_blast_def)
  with run t show ?thesis by auto
qed

theorem nodes_fasta_clobbers_blast_output_witness:
  "\<exists>fs' t. main (\<lambda>_ _ _ _. Some demo_hits) 8 (\<lambda>g. replicate (nverts g) (0, 0)) (\<lambda>g. [[0..<nverts g]])
             (demo_args ''nodes.fa'') Map.empty = Inr fs' \<and>
           blast_to_graph ''sscinames'' ''qacc'' demo_hits (\<lambda>g. replicate (nverts g) (0, 0))
             (\<lambda>g. [[0..<nverts g]]) = Inr t \<and>
           fs' ''nodes.tsv'' = Some (Node_csv (node_df t)) \<and>
           main (\<lambda>_ _ _ _. Some demo_hits) 8 (\<lambda>g. replicate (nverts g) (0, 0)) (\<lambda>g. [[0..<nverts g]])
             (demo_args ''nodes.fa'') (fs'(''nodes.pickle'' := None)) = Inl KeyError"
proof -
  obtain hs where hs: "hit_filter ''sscinames'' ''qacc'' demo_hits = Inr hs" using demo_hits_filter by blast
  show ?thesis
    using nodes_fasta_clobbers_blast_output [OF _ _ _ _ _ hs demo_params, of "demo_args ''nodes.fa''" Map.empty
        "\<lambda>_ _ _ _. Some demo_hits" 8] by simp
qed

text \<open>
  C21. Line 27 removes every occurrence of the extension, not only the final one: for a
  name \<open>p.ext\<close> (no dot in \<open>ext\<close>) the prefix is \<open>p\<close> with every \<open>.ext\<close> in it
  removed as \<open>str.replace\<close> does, so a directory whose name contains \<open>.ext\<close> loses it.
\<close>

theorem prefix_of_replaces_all:
  assumes "CHR ''.'' \<notin> set ext"
  shows "prefix_of (p @ CHR ''.'' # ext) = py_replace (CHR ''.'' # ext) [] p"
  using assms by (simp add: prefix_of_def py_split_last py_replace_ext_append)

theorem prefix_of_replaces_all_witness:
  "prefix_of (''run.fa_files/seq'' @ CHR ''.'' # ''fa'') = py_replace ''.fa'' [] ''run.fa_files/seq'' \<and>
   py_replace ''.fa'' [] ''run.fa_files/seq'' = ''run_files/seq''"
  using prefix_of_replaces_all [of "''fa''" "''run.fa_files/seq''"] by simp

end
