(* ===== verification/Cli.thy ===== *)
theory Cli
  imports Files
begin

text \<open>
  The command line of \<open>src/blastgraph.py\<close>: the argparse parser of lines 10--16 with
  Python's \<open>int\<close> conversion of the thread count, the BLAST command of line 36 as the
  shell splits it into words, and \<open>main(arguments)\<close> as a whole (lines 8--40), from the
  argument vector to the tables the viewer loads. argparse is modelled as CPython 3.11
  implements it for a parser without positional arguments: \<open>_parse_optional\<close> classifies
  each token, unique prefixes of long options are accepted, \<open>--opt=value\<close> and
  \<open>-ovalue\<close> give a value inline, \<open>-h\<close> may start a cluster of short options, the last
  occurrence of an option wins, and every usage error is \<open>SystemExit 2\<close>.
\<close>

section \<open>Python's int() and str() of integers\<close>

definition is_digit :: "char \<Rightarrow> bool" where
  "is_digit c \<longleftrightarrow> CHR ''0'' \<le> c \<and> c \<le> CHR ''9''"

text \<open>The ASCII characters \<open>str.isspace\<close> accepts, which \<open>int()\<close> strips.\<close>

definition py_space :: "char \<Rightarrow> bool" where
  "py_space c \<longleftrightarrow> (let n = (of_char c :: nat) in (9 \<le> n \<and> n \<le> 13) \<or> (28 \<le> n \<and> n \<le> 32))"

definition py_strip :: "string \<Rightarrow> string" where
  "py_strip s = rev (dropWhile py_space (rev (dropWhile py_space s)))"

text \<open>
  \<open>int(s)\<close> in base 10: surrounding white space, an optional sign, decimal digits with
  single underscores between them; anything else raises \<open>ValueError\<close> (\<open>None\<close>).
\<close>

definition digits_ok :: "string \<Rightarrow> bool" where
  "digits_ok b \<longleftrightarrow> b \<noteq> [] \<and> is_digit (hd b) \<and> is_digit (last b) \<and>
     list_all (\<lambda>c. is_digit c \<or> c = CHR ''_'') b \<and>
     list_all (\<lambda>(x, y). \<not> (x = CHR ''_'' \<and> y = CHR ''_'')) (zip b (tl b))"

definition py_int :: "string \<Rightarrow> int option" where
  "py_int s =
     (let t = py_strip s;
          (sg, b) = (if t \<noteq> [] \<and> hd t = CHR ''-'' then (-1, tl t)
                     else if t \<noteq> [] \<and> hd t = CHR ''+'' then (1, tl t) else (1, t))
      in if digits_ok b then Some (sg * int (parse_nat (filter (\<lambda>c. c \<noteq> CHR ''_'') b))) else None)"

definition int_str :: "int \<Rightarrow> string" where
  "int_str n = (if n < 0 then CHR ''-'' # nat_str (nat (- n)) else nat_str (nat n))"

section \<open>The argument parser (lines 10--16)\<close>

text \<open>The actions of the parser, \<open>-h\<close> first as \<open>ArgumentParser\<close> adds it.\<close>

datatype arg_action = Act_help | Act_file | Act_db | Act_evalue | Act_threads | Act_force

definition option_table :: "(string \<times> arg_action) list" where
  "option_table =
     [(''-h'', Act_help), (''--help'', Act_help), (''-f'', Act_file), (''--file'', Act_file),
      (''-d'', Act_db), (''--db'', Act_db), (''-e'', Act_evalue), (''--evalue'', Act_evalue),
      (''-t'', Act_threads), (''--threads'', Act_threads), (''--force'', Act_force)]"

definition takes_value :: "arg_action \<Rightarrow> bool" where
  "takes_value a \<longleftrightarrow> a \<noteq> Act_help \<and> a \<noteq> Act_force"

text \<open>\<open>_negative_number_matcher\<close>: \<open>^-\d+$|^-\d*\.\d+$\<close>.\<close>

definition negative_number :: "string \<Rightarrow> bool" where
  "negative_number s =
     (s \<noteq> [] \<and> hd s = CHR ''-'' \<and>
      (let r = tl s; a = takeWhile (\<lambda>c. c \<noteq> CHR ''.'') r; b = dropWhile (\<lambda>c. c \<noteq> CHR ''.'') r in
       (r \<noteq> [] \<and> list_all is_digit r) \<or>
       (list_all is_digit a \<and> b \<noteq> [] \<and> tl b \<noteq> [] \<and> list_all is_digit (tl b))))"

definition starts_with :: "string \<Rightarrow> string \<Rightarrow> bool" where
  "starts_with s p \<longleftrightarrow> take (length p) s = p"

text \<open>
  \<open>_get_option_tuples\<close>: a long prefix (\<open>--\<close>) matches every option it begins, with
  the text after \<open>=\<close> as value; a short one matches the option of its first two
  characters, the rest being the value.
\<close>

definition option_tuples :: "string \<Rightarrow> (arg_action \<times> string option) list" where
  "option_tuples s =
     (if starts_with s ''--'' then
        (let pre = takeWhile (\<lambda>c. c \<noteq> CHR ''='') s;
             ex = (if CHR ''='' \<in> set s then Some (tl (dropWhile (\<lambda>c. c \<noteq> CHR ''='') s)) else None) in
         map (\<lambda>(nm, a). (a, ex)) (filter (\<lambda>(nm, a). starts_with nm pre) option_table))
      else
        map (\<lambda>(nm, a). (a, if nm = take 2 s then Some (drop 2 s) else None))
          (filter (\<lambda>(nm, a). nm = take 2 s \<or> starts_with nm s) option_table))"

text \<open>How the parser classifies a token: an argument, the \<open>--\<close> marker, a known option with
  its inline value, an unknown option, or an ambiguous abbreviation.\<close>

datatype token = Positional | Dashdash | Known arg_action "string option" | Unknown | Ambiguous

definition parse_optional :: "string \<Rightarrow> token" where
  "parse_optional s =
     (if s = [] \<or> hd s \<noteq> CHR ''-'' then Positional
      else if s = ''--'' then Dashdash
      else
        (case map_of option_table s of
           Some a \<Rightarrow> Known a None
         | None \<Rightarrow>
             if length s = 1 then Positional
             else
               (case (if CHR ''='' \<in> set s then map_of option_table (takeWhile (\<lambda>c. c \<noteq> CHR ''='') s) else None) of
                  Some a \<Rightarrow> Known a (Some (tl (dropWhile (\<lambda>c. c \<noteq> CHR ''='') s)))
                | None \<Rightarrow>
                    (case option_tuples s of
                       [(a, ex)] \<Rightarrow> Known a ex
                     | _ # _ # _ \<Rightarrow> Ambiguous
                     | [] \<Rightarrow> if negative_number s \<or> CHR '' '' \<in> set s then Positional else Unknown))))"

text \<open>The namespace being filled, with the unrecognised arguments.\<close>

record arg_ns =
  ns_file :: "string option"
  ns_db :: "string option"
  ns_evalue :: string
  ns_threads :: int
  ns_force :: bool
  ns_extras :: "string list"

definition ns_default :: arg_ns where
  "ns_default = \<lparr>ns_file = None, ns_db = None, ns_evalue = ''1e-80'', ns_threads = 0, ns_force = False,
                 ns_extras = []\<rparr>"

text \<open>\<open>take_action\<close> of a store action: \<open>type=int\<close> converts the thread count.\<close>

definition store_value :: "arg_action \<Rightarrow> string \<Rightarrow> arg_ns \<Rightarrow> py_error + arg_ns" where
  "store_value a v ns =
     (case a of
        Act_file \<Rightarrow> Inr (ns\<lparr>ns_file := Some v\<rparr>)
      | Act_db \<Rightarrow> Inr (ns\<lparr>ns_db := Some v\<rparr>)
      | Act_evalue \<Rightarrow> Inr (ns\<lparr>ns_evalue := v\<rparr>)
      | Act_threads \<Rightarrow> (case py_int v of None \<Rightarrow> Inl (SystemExit 2) | Some n \<Rightarrow> Inr (ns\<lparr>ns_threads := n\<rparr>))
      | _ \<Rightarrow> Inr ns)"

text \<open>
  \<open>-h\<close> with more characters attached: each further character names a short option;
  once the cluster is consumed without a usage error the help action runs first and
  exits with 0.
\<close>

fun help_cluster :: "string \<Rightarrow> string list \<Rightarrow> py_error" where
  "help_cluster [] ts = SystemExit 2"
| "help_cluster (c # rest) ts =
     (case map_of option_table [CHR ''-'', c] of
        None \<Rightarrow> SystemExit 2
      | Some a \<Rightarrow>
          if \<not> takes_value a then (if rest = [] then SystemExit 0 else help_cluster rest ts)
          else if rest \<noteq> [] then SystemExit 0
          else (case ts of v # _ \<Rightarrow> if parse_optional v = Positional then SystemExit 0 else SystemExit 2
                         | [] \<Rightarrow> SystemExit 2))"

text \<open>
  \<open>consume_optional\<close> and the extras, left to right: an option that takes a value uses
  its inline value or the next token, which must be an argument; a flag given a value,
  and a missing value, are usage errors; \<open>--\<close> and all after it are unrecognised.
\<close>

function parse_loop :: "string list \<Rightarrow> arg_ns \<Rightarrow> py_error + arg_ns" where
  "parse_loop [] ns = Inr ns"
| "parse_loop (t # ts) ns =
     (case parse_optional t of
        Dashdash \<Rightarrow> Inr (ns\<lparr>ns_extras := ns_extras ns @ t # ts\<rparr>)
      | Known a ex \<Rightarrow>
          if a = Act_help then
            Inl (case ex of None \<Rightarrow> SystemExit 0
                 | Some e \<Rightarrow> if starts_with t ''--'' then SystemExit 2 else help_cluster e ts)
          else if a = Act_force then
            (if ex = None then parse_loop ts (ns\<lparr>ns_force := True\<rparr>) else Inl (SystemExit 2))
          else
            (case ex of
               Some v \<Rightarrow> (case store_value a v ns of Inl err \<Rightarrow> Inl err | Inr ns' \<Rightarrow> parse_loop ts ns')
             | None \<Rightarrow>
                 (case ts of
                    [] \<Rightarrow> Inl (SystemExit 2)
                  | v # ts' \<Rightarrow>
                      if parse_optional v = Positional then
                        (case store_value a v ns of Inl err \<Rightarrow> Inl err | Inr ns' \<Rightarrow> parse_loop ts' ns')
                      else Inl (SystemExit 2)))
      | Ambiguous \<Rightarrow> Inl (SystemExit 2)
      | _ \<Rightarrow> parse_loop ts (ns\<lparr>ns_extras := ns_extras ns @ [t]\<rparr>))"
  by pat_completeness auto
termination
  by (relation "measure (\<lambda>(ts, ns). length ts)") auto

text \<open>
  \<open>parser.parse_args(arguments)\<close>: every token before \<open>--\<close> is classified first (an
  ambiguous abbreviation exits at once), then the tokens are consumed; the required
  \<open>-f\<close> and \<open>-d\<close> must have been given and nothing may be left unrecognised.
\<close>

definition parse_args :: "string list \<Rightarrow> py_error + cli_args" where
  "parse_args argv =
     (if list_ex (\<lambda>t. parse_optional t = Ambiguous) (takeWhile (\<lambda>t. t \<noteq> ''--'') argv) then Inl (SystemExit 2)
      else
        (case parse_loop argv ns_default of
           Inl err \<Rightarrow> Inl err
         | Inr ns \<Rightarrow>
             (case (ns_file ns, ns_db ns) of
                (Some f, Some d) \<Rightarrow>
                  if ns_extras ns = [] then
                    Inr \<lparr>arg_file = f, arg_db = d, arg_evalue = ns_evalue ns, arg_threads = ns_threads ns,
                         arg_force = ns_force ns\<rparr>
                  else Inl (SystemExit 2)
              | _ \<Rightarrow> Inl (SystemExit 2))))"

section \<open>The BLAST command (line 36) and the shell\<close>

definition blast_columns :: string where
  "blast_columns = ''qacc sacc bitscore evalue sscinames''"

text \<open>The command string of line 36, \<open>str(threads)\<close> included.\<close>

definition blast_command :: "cli_args \<Rightarrow> int \<Rightarrow> string" where
  "blast_command args threads =
     ''blastn -query '' @ arg_file args @ '' -db '' @ arg_db args @ '' -out '' @ blast_file_of (arg_file args) @
     '' -evalue '' @ arg_evalue args @ '' -max_hsps 1 -outfmt '' @ CHR 0x22 # ''6 '' @ blast_columns @ CHR 0x22 # '' -num_threads '' @
     int_str threads"

text \<open>
  \<open>shell=True\<close> runs the string with \<open>sh -c\<close>, which splits it into words at unquoted
  blanks (space, tab) and joins the text of double quotes to the word; an unterminated
  quote is a syntax error (\<open>None\<close>). Other characters are taken literally: the
  properties below only use characters that have no special meaning to sh.
\<close>

function sh_split :: "string \<Rightarrow> string option \<Rightarrow> string list option" where
  "sh_split [] w = Some (case w of None \<Rightarrow> [] | Some x \<Rightarrow> [x])"
| "sh_split (c # cs) w =
     (if c = CHR '' '' \<or> c = CHR 0x09 then
        (case sh_split cs None of None \<Rightarrow> None | Some ws \<Rightarrow> Some (case w of None \<Rightarrow> ws | Some x \<Rightarrow> x # ws))
      else if c = CHR 0x22 then
        (if CHR 0x22 \<in> set cs then
           sh_split (drop (Suc (length (takeWhile (\<lambda>d. d \<noteq> CHR 0x22) cs))) cs)
             (Some ((case w of None \<Rightarrow> [] | Some x \<Rightarrow> x) @ takeWhile (\<lambda>d. d \<noteq> CHR 0x22) cs))
         else None)
      else sh_split cs (Some ((case w of None \<Rightarrow> [] | Some x \<Rightarrow> x) @ [c])))"
  by pat_completeness auto
termination
  by (relation "measure (\<lambda>(s, w). length s)") auto

definition sh_words :: "string \<Rightarrow> string list option" where
  "sh_words s = sh_split s None"

text \<open>Characters sh takes literally: letters, digits and \<open>._-/+:,@%=\<close>.\<close>

definition sh_plain :: "char \<Rightarrow> bool" where
  "sh_plain c \<longleftrightarrow> is_digit c \<or> (CHR ''a'' \<le> c \<and> c \<le> CHR ''z'') \<or> (CHR ''A'' \<le> c \<and> c \<le> CHR ''Z'') \<or>
     c \<in> set ''._-/+:,@%=''"

section \<open>main(arguments) (lines 8--40)\<close>

text \<open>
  The whole of \<open>main\<close>: parse the arguments, run BLAST and build the graph file
  (\<open>Files.main\<close>), then start the viewer on the graph file, which loads its tables.
\<close>

definition blastgraph ::
  "(string \<Rightarrow> string \<Rightarrow> string \<Rightarrow> int \<Rightarrow> blast_row list option) \<Rightarrow> int \<Rightarrow>
   (graph \<Rightarrow> (real \<times> real) list) \<Rightarrow> (graph \<Rightarrow> nat list list) \<Rightarrow> string list \<Rightarrow> fs \<Rightarrow>
   py_error + vertex list \<times> edge list" where
  "blastgraph blastn max_cores layout cluster argv fs =
     (case parse_args argv of
        Inl err \<Rightarrow> Inl err
      | Inr args \<Rightarrow>
          (case main blastn max_cores layout cluster args fs of
             Inl err \<Rightarrow> Inl err
           | Inr fs' \<Rightarrow> app_load fs' (graph_file_of (arg_file args))))"

section \<open>Lemmas: int() and str(), option classification\<close>

lemma nat_str_is_digit: "list_all is_digit (nat_str n)"
  unfolding list_all_iff
proof
  fix c assume "c \<in> set (nat_str n)"
  from nat_str_digits [OF this] show "is_digit c" by (simp add: is_digit_def less_eq_char_def)
qed

lemma nat_str_hd: "nat_str n = c # cs \<Longrightarrow> is_digit c"
  using nat_str_is_digit [of n] by simp

lemma py_strip_id: "s = [] \<or> (\<not> py_space (hd s) \<and> \<not> py_space (last s)) \<Longrightarrow> py_strip s = s"
proof (cases s rule: rev_cases)
  case (snoc ys y)
  assume a: "s = [] \<or> (\<not> py_space (hd s) \<and> \<not> py_space (last s))"
  with snoc have "dropWhile py_space s = s" by (cases ys) auto
  moreover have "dropWhile py_space (rev s) = rev s" using a snoc by simp
  ultimately show ?thesis by (simp add: py_strip_def)
qed (simp add: py_strip_def)

lemma digit_not_space: "is_digit c \<Longrightarrow> \<not> py_space c"
  by (auto simp: is_digit_def py_space_def less_eq_char_def)

lemma digits_ok_nat_str: "digits_ok (nat_str n)"
proof -
  have all: "list_all is_digit (nat_str n)" by (rule nat_str_is_digit)
  have ne: "nat_str n \<noteq> []" by (rule nat_str_nonempty)
  have nu: "\<forall>c\<in>set (nat_str n). c \<noteq> CHR ''_''" using all by (auto simp: list_all_iff is_digit_def)
  have "list_all (\<lambda>(x, y). \<not> (x = CHR ''_'' \<and> y = CHR ''_'')) (zip (nat_str n) (tl (nat_str n)))"
    using nu by (auto simp: list_all_iff dest: set_zip_leftD)
  with all ne show ?thesis
    by (auto simp: digits_ok_def list_all_iff)
qed

lemma filter_nat_str: "filter (\<lambda>c. c \<noteq> CHR ''_'') (nat_str n) = nat_str n"
  using nat_str_is_digit [of n] by (auto simp: list_all_iff is_digit_def filter_id_conv)

lemma nat_str_last_digit: "is_digit (last (nat_str n))"
proof -
  have "last (nat_str n) \<in> set (nat_str n)" using nat_str_nonempty by simp
  then show ?thesis using nat_str_is_digit [of n] by (simp add: list_all_iff)
qed

lemma py_int_nat_str: "py_int (nat_str m) = Some (int m)"
proof -
  obtain c cs where ns: "nat_str m = c # cs" using nat_str_nonempty by (cases "nat_str m") auto
  have d: "is_digit c" by (rule nat_str_hd [OF ns])
  have strip: "py_strip (nat_str m) = nat_str m"
    using d ns nat_str_last_digit [of m] by (intro py_strip_id) (simp add: digit_not_space)
  have "hd (nat_str m) \<noteq> CHR ''-'' \<and> hd (nat_str m) \<noteq> CHR ''+''" using d ns by (auto simp: is_digit_def)
  with strip show ?thesis
    by (simp add: py_int_def Let_def digits_ok_nat_str filter_nat_str parse_nat_str)
qed

lemma py_int_str: "py_int (int_str n) = Some n"
proof (cases "n < 0")
  case True
  have "\<not> py_space CHR ''-''" by (simp add: py_space_def)
  then have "py_strip (CHR ''-'' # nat_str (nat (- n))) = CHR ''-'' # nat_str (nat (- n))"
    using nat_str_last_digit [of "nat (- n)"] nat_str_nonempty [of "nat (- n)"]
    by (intro py_strip_id) (simp add: digit_not_space)
  with True show ?thesis
    by (simp add: py_int_def int_str_def digits_ok_nat_str filter_nat_str parse_nat_str)
next
  case False
  then show ?thesis using py_int_nat_str [of "nat n"] by (simp add: int_str_def)
qed

lemma parse_optional_options:
  "parse_optional ''-f'' = Known Act_file None" "parse_optional ''-d'' = Known Act_db None"
  "parse_optional ''-e'' = Known Act_evalue None" "parse_optional ''-t'' = Known Act_threads None"
  "parse_optional ''--force'' = Known Act_force None"
  by (simp_all add: parse_optional_def option_table_def)

lemma parse_optional_plain: "v = [] \<or> hd v \<noteq> CHR ''-'' \<Longrightarrow> parse_optional v = Positional"
  by (auto simp: parse_optional_def)

lemma option_table_keys: "(nm, a) \<in> set option_table \<Longrightarrow> 2 \<le> length nm \<and> \<not> is_digit (nm ! 1)"
  by (auto simp: option_table_def is_digit_def)

lemma parse_optional_negative:
  assumes "is_digit c" and "list_all is_digit cs"
  shows "parse_optional (CHR ''-'' # c # cs) = Positional"
proof -
  let ?s = "CHR ''-'' # c # cs"
  have nokey: "take 2 ?s \<noteq> nm \<and> \<not> starts_with nm ?s \<and> nm \<noteq> ?s" if "(nm, a) \<in> set option_table" for nm a
  proof -
    from option_table_keys [OF that] have l: "2 \<le> length nm" and nd: "\<not> is_digit (nm ! 1)" by auto
    have "take 2 ?s ! 1 = c" "?s ! 1 = c" by simp_all
    moreover have "take (length ?s) nm ! 1 = nm ! 1" by simp
    ultimately show ?thesis using assms(1) nd unfolding starts_with_def by metis
  qed
  have m: "map_of option_table ?s = None"
    unfolding map_of_eq_None_iff using nokey by force
  have "\<not> starts_with ?s ''--''" using assms(1) by (auto simp: starts_with_def is_digit_def)
  then have nt: "option_tuples ?s = []"
    using nokey by (auto simp: option_tuples_def filter_empty_conv)
  have eq: "CHR ''='' \<notin> set ?s" using assms by (auto simp: list_all_iff is_digit_def)
  have "negative_number ?s" using assms by (simp add: negative_number_def)
  moreover have "?s \<noteq> ''--''" using assms(1) by (auto simp: is_digit_def)
  ultimately show ?thesis using m nt eq by (simp add: parse_optional_def)
qed

lemma parse_optional_int_str: "parse_optional (int_str n) = Positional"
proof -
  obtain c cs where ns: "nat_str (nat \<bar>n\<bar>) = c # cs" using nat_str_nonempty by (cases "nat_str (nat \<bar>n\<bar>)") auto
  have d: "is_digit c" by (rule nat_str_hd [OF ns])
  have all: "list_all is_digit cs" using nat_str_is_digit [of "nat \<bar>n\<bar>"] ns by simp
  show ?thesis
  proof (cases "n < 0")
    case True
    then have "int_str n = CHR ''-'' # c # cs" using ns by (simp add: int_str_def)
    then show ?thesis using parse_optional_negative [OF d all] by simp
  next
    case False
    then have "int_str n = c # cs" using ns by (simp add: int_str_def)
    moreover have "c \<noteq> CHR ''-''" using d by (auto simp: is_digit_def)
    ultimately show ?thesis by (simp add: parse_optional_plain)
  qed
qed

section \<open>Lemmas: the parser\<close>

lemma parse_loop_value:
  assumes "parse_optional t = Known a None" and "takes_value a" and "parse_optional v = Positional"
    and "store_value a v ns = Inr ns'"
  shows "parse_loop (t # v # ts) ns = parse_loop ts ns'"
  using assms by (simp add: takes_value_def)

lemma parse_loop_force: "parse_loop (''--force'' # ts) ns = parse_loop ts (ns\<lparr>ns_force := True\<rparr>)"
  by (simp del: parse_loop.simps add: parse_loop.simps(2) parse_optional_options)

lemma list_ex_takeWhile: "list_ex P (takeWhile Q xs) \<Longrightarrow> list_ex P xs"
  by (auto simp: list_ex_iff dest: set_takeWhileD)

lemma parse_args_loop:
  assumes "\<not> list_ex (\<lambda>t. parse_optional t = Ambiguous) argv"
    and "parse_loop argv ns_default = Inr ns" and "ns_file ns = Some f" and "ns_db ns = Some d"
    and "ns_extras ns = []"
  shows "parse_args argv = Inr \<lparr>arg_file = f, arg_db = d, arg_evalue = ns_evalue ns, arg_threads = ns_threads ns,
                               arg_force = ns_force ns\<rparr>"
  using assms list_ex_takeWhile [of _ "\<lambda>t. t \<noteq> ''--''" argv] by (auto simp: parse_args_def)

lemma parse_args_defaults:
  assumes "f = [] \<or> hd f \<noteq> CHR ''-''" and "d = [] \<or> hd d \<noteq> CHR ''-''"
  shows "parse_args [''-f'', f, ''-d'', d] =
           Inr \<lparr>arg_file = f, arg_db = d, arg_evalue = ''1e-80'', arg_threads = 0, arg_force = False\<rparr>"
proof -
  note pos = parse_optional_plain [OF assms(1)] parse_optional_plain [OF assms(2)]
  note steps = parse_loop_value [OF parse_optional_options(1)] parse_loop_value [OF parse_optional_options(2)]
  have "parse_loop [''-f'', f, ''-d'', d] ns_default = Inr (ns_default\<lparr>ns_file := Some f, ns_db := Some d\<rparr>)"
    using pos by (simp del: parse_loop.simps add: parse_loop.simps(1) steps takes_value_def store_value_def)
  moreover have "\<not> list_ex (\<lambda>t. parse_optional t = Ambiguous) [''-f'', f, ''-d'', d]"
    using pos by (simp add: parse_optional_options)
  ultimately show ?thesis by (simp add: parse_args_loop ns_default_def)
qed

text \<open>
  C12. Command-line round trip: the argument list main() would be called with for given
  values (-f, -d, -e, -t and optionally --force, the thread count printed by str()) parses
  back to exactly those values, and -f/-d alone give the defaults evalue 1e-80, threads 0
  and force False; file, database and evalue need only not start with a dash.
\<close>

theorem parse_args_roundtrip:
  assumes "f = [] \<or> hd f \<noteq> CHR ''-''" and "d = [] \<or> hd d \<noteq> CHR ''-''" and "e = [] \<or> hd e \<noteq> CHR ''-''"
  shows "parse_args ([''-f'', f, ''-d'', d, ''-e'', e, ''-t'', int_str n] @ (if force then [''--force''] else [])) =
           Inr \<lparr>arg_file = f, arg_db = d, arg_evalue = e, arg_threads = n, arg_force = force\<rparr> \<and>
         parse_args [''-f'', f, ''-d'', d] =
           Inr \<lparr>arg_file = f, arg_db = d, arg_evalue = ''1e-80'', arg_threads = 0, arg_force = False\<rparr>"
proof -
  note pos = parse_optional_plain [OF assms(1)] parse_optional_plain [OF assms(2)]
    parse_optional_plain [OF assms(3)] parse_optional_int_str [of n]
  note steps = parse_loop_value [OF parse_optional_options(1)] parse_loop_value [OF parse_optional_options(2)]
    parse_loop_value [OF parse_optional_options(3)] parse_loop_value [OF parse_optional_options(4)]
  have "parse_loop ([''-f'', f, ''-d'', d, ''-e'', e, ''-t'', int_str n] @ (if force then [''--force''] else [])) ns_default =
          Inr (ns_default\<lparr>ns_file := Some f, ns_db := Some d, ns_evalue := e, ns_threads := n, ns_force := force\<rparr>)"
    using pos by (simp del: parse_loop.simps add: parse_loop.simps(1) steps takes_value_def store_value_def py_int_str parse_loop_force ns_default_def)
  moreover have "\<not> list_ex (\<lambda>t. parse_optional t = Ambiguous)
                    ([''-f'', f, ''-d'', d, ''-e'', e, ''-t'', int_str n] @ (if force then [''--force''] else []))"
    using pos by (simp add: parse_optional_options)
  ultimately show ?thesis using parse_args_defaults [OF assms(1,2)] by (simp add: parse_args_loop ns_default_def)
qed

theorem parse_args_roundtrip_witness:
  "parse_args [''-f'', ''reads.fasta'', ''-d'', ''nt'', ''-e'', ''1e-5'', ''-t'', int_str (-2), ''--force''] =
     Inr \<lparr>arg_file = ''reads.fasta'', arg_db = ''nt'', arg_evalue = ''1e-5'', arg_threads = -2, arg_force = True\<rparr> \<and>
   parse_args [''-f'', ''reads.fasta'', ''-d'', ''nt''] =
     Inr \<lparr>arg_file = ''reads.fasta'', arg_db = ''nt'', arg_evalue = ''1e-80'', arg_threads = 0, arg_force = False\<rparr>"
  using parse_args_roundtrip [of "''reads.fasta''" "''nt''" "''1e-5''" "-2" True] by simp

section \<open>Lemmas: usage errors\<close>

lemma help_cluster_exit: "help_cluster e ts = SystemExit 0 \<or> help_cluster e ts = SystemExit 2"
  by (induction e ts rule: help_cluster.induct) (auto split: option.split list.split)

lemma store_value_exit: "store_value a v ns = Inl e \<Longrightarrow> e = SystemExit 2"
  by (auto simp: store_value_def split: arg_action.splits option.splits)

lemma store_value_fields:
  "store_value a v ns = Inr ns' \<Longrightarrow>
     (a \<noteq> Act_file \<longrightarrow> ns_file ns' = ns_file ns) \<and> (a \<noteq> Act_db \<longrightarrow> ns_db ns' = ns_db ns)"
  by (auto simp: store_value_def split: arg_action.splits option.splits)

lemma parse_loop_exit:
  "parse_loop ts ns = Inl e \<Longrightarrow> e = SystemExit 0 \<or> e = SystemExit 2"
proof (induction "length ts" arbitrary: ts ns rule: less_induct)
  case less
  show ?case
  proof (cases ts)
    case (Cons t ts')
    have IH1: "\<And>ns. parse_loop ts' ns = Inl e \<Longrightarrow> e = SystemExit 0 \<or> e = SystemExit 2"
      using less(1) [of ts'] Cons by simp
    have IH2: "\<And>ns. parse_loop (tl ts') ns = Inl e \<Longrightarrow> e = SystemExit 0 \<or> e = SystemExit 2"
      using less(1) [of "tl ts'"] Cons by simp
    note h = less(2) [unfolded Cons parse_loop.simps(2)]
    show ?thesis
    proof (cases "parse_optional t")
      case (Known a ex)
      then show ?thesis using h help_cluster_exit store_value_exit IH1 IH2
        by (auto simp del: parse_loop.simps split: option.splits list.split_asm if_splits sum.splits)
    qed (use h IH1 in \<open>auto simp del: parse_loop.simps\<close>)
  qed (use less(2) in simp)
qed

lemma parse_loop_required:
  "parse_loop ts ns = Inr ns' \<Longrightarrow>
     (ns_file ns' \<noteq> ns_file ns \<longrightarrow> list_ex (\<lambda>t. \<exists>ex. parse_optional t = Known Act_file ex) ts) \<and>
     (ns_db ns' \<noteq> ns_db ns \<longrightarrow> list_ex (\<lambda>t. \<exists>ex. parse_optional t = Known Act_db ex) ts)"
  (is "_ \<Longrightarrow> ?P ts ns")
proof (induction "length ts" arbitrary: ts ns rule: less_induct)
  case less
  show ?case
  proof (cases ts)
    case (Cons t ts')
    have IH1: "\<And>ns. parse_loop ts' ns = Inr ns' \<Longrightarrow> ?P ts' ns"
      using less(1) [of ts'] Cons by simp
    have IH2: "\<And>ns. parse_loop (tl ts') ns = Inr ns' \<Longrightarrow> ?P (tl ts') ns"
      using less(1) [of "tl ts'"] Cons by simp
    note h = less(2) [unfolded Cons parse_loop.simps(2)]
    show ?thesis
    proof (cases "parse_optional t")
      case (Known a ex)
      then show ?thesis using h IH1 IH2 Cons
        by (auto simp del: parse_loop.simps split: option.splits list.split_asm if_splits sum.splits
                 dest!: store_value_fields)
    qed (use h IH1 Cons in \<open>auto simp del: parse_loop.simps\<close>)
  qed (use less(2) in simp)
qed

text \<open>
  C13. Parser exits: parse_args ends either with SystemExit 0 (help) or SystemExit 2 (usage
  error) and no other error, or with arguments for which the command line contains a token
  argparse classifies as -f/--file and one it classifies as -d/--db (the required options).
\<close>

theorem parse_args_exits:
  "(case parse_args argv of
      Inl e \<Rightarrow> e = SystemExit 0 \<or> e = SystemExit 2
    | Inr a \<Rightarrow> list_ex (\<lambda>t. \<exists>ex. parse_optional t = Known Act_file ex) argv \<and>
               list_ex (\<lambda>t. \<exists>ex. parse_optional t = Known Act_db ex) argv)"
  using parse_loop_exit [of argv ns_default] parse_loop_required [of argv ns_default]
  by (auto simp: parse_args_def ns_default_def split: sum.splits option.splits if_splits)

section \<open>Lemmas: the shell command and the whole run\<close>

lemma sh_plain_char: "sh_plain c \<Longrightarrow> c \<noteq> CHR '' '' \<and> c \<noteq> CHR 0x09 \<and> c \<noteq> CHR 0x22"
  by (auto simp: sh_plain_def is_digit_def)

lemma sh_split_plain:
  "list_all sh_plain w \<Longrightarrow> sh_split (w @ cs) (Some x) = sh_split cs (Some (x @ w))"
proof (induction w arbitrary: x)
  case (Cons c w)
  then show ?case using sh_plain_char [of c] by simp
qed simp

lemma sh_split_word:
  "list_all sh_plain w \<Longrightarrow> w \<noteq> [] \<Longrightarrow> sh_split (w @ cs) None = sh_split cs (Some w)"
  using sh_plain_char [of "hd w"] sh_split_plain [of "tl w" cs "[hd w]"]
  by (cases w) simp_all

lemma sh_split_last_word:
  "list_all sh_plain w \<Longrightarrow> w \<noteq> [] \<Longrightarrow> sh_split w None = Some [w]"
  using sh_split_word [of w "[]"] by simp

lemma py_replace_chars: "set (py_replace old [] s) \<subseteq> set s"
proof (induction old "[] :: string" s rule: py_replace.induct)
  case (2 old c cs)
  then show ?case using set_drop_subset [of "length old" "c # cs"] by auto
qed simp

lemma blast_file_plain: "list_all sh_plain f \<Longrightarrow> list_all sh_plain (blast_file_of f)"
  using py_replace_chars
  by (fastforce simp: blast_file_of_def prefix_of_def list_all_iff sh_plain_def)

lemma int_str_plain: "list_all sh_plain (int_str n) \<and> int_str n \<noteq> []"
  using nat_str_is_digit [of "nat (- n)"] nat_str_is_digit [of "nat n"]
  by (auto simp: int_str_def list_all_iff sh_plain_def nat_str_nonempty)

text \<open>
  C14. The blastn command line: when the FASTA name, the database and the evalue are nonempty
  and made of characters sh takes literally, sh -c splits the command blastgraph.py builds
  into the intended argument vector, the -outfmt format one word. With a blank in the FASTA
  name the query and output name split into two words each (lemma blast_command_space_split).
\<close>

theorem blast_command_words:
  assumes "list_all sh_plain (arg_file args)" and "arg_file args \<noteq> []"
    and "list_all sh_plain (arg_db args)" and "arg_db args \<noteq> []"
    and "list_all sh_plain (arg_evalue args)" and "arg_evalue args \<noteq> []"
  shows "sh_words (blast_command args t) =
           Some [''blastn'', ''-query'', arg_file args, ''-db'', arg_db args, ''-out'', blast_file_of (arg_file args),
                 ''-evalue'', arg_evalue args, ''-max_hsps'', ''1'', ''-outfmt'', ''6 '' @ blast_columns,
                 ''-num_threads'', int_str t]"
proof -
  have bf: "list_all sh_plain (blast_file_of (arg_file args))" "blast_file_of (arg_file args) \<noteq> []"
    using blast_file_plain assms(1) by (auto simp: blast_file_of_def)
  show ?thesis
    using assms bf int_str_plain [of t]
    by (simp add: sh_words_def blast_command_def blast_columns_def sh_split_word sh_split_last_word)
qed

text \<open>A FASTA name with a space: sh splits the query and the output file in two.\<close>

lemma blast_command_space_split:
  "sh_words (blast_command \<lparr>arg_file = ''my reads.fa'', arg_db = ''nt'', arg_evalue = ''1e-80'',
                              arg_threads = 0, arg_force = False\<rparr> 4) =
     Some [''blastn'', ''-query'', ''my'', ''reads.fa'', ''-db'', ''nt'', ''-out'', ''my'', ''reads.tsv'',
           ''-evalue'', ''1e-80'', ''-max_hsps'', ''1'', ''-outfmt'', ''6 qacc sacc bitscore evalue sscinames'',
           ''-num_threads'', ''4'']"
  by code_simp

text \<open>
  C11. End to end: blastgraph.py -f f -d d on a directory without its BLAST output or graph
  file, when blastn succeeds (with all cores, since threads defaults to 0) and the hits
  have names, writes the graph and the viewer loads exactly the node and edge tables
  that blast_to_graph built.
\<close>

theorem blastgraph_end_to_end:
  assumes "f = [] \<or> hd f \<noteq> CHR ''-''" and "d = [] \<or> hd d \<noteq> CHR ''-''"
    and "fs (blast_file_of f) = None" and "fs (graph_file_of f) = None"
    and "blastn f d ''1e-80'' max_cores = Some rows"
    and "hit_filter ''sscinames'' ''qacc'' rows = Inr hs" and "layout_ok layout" and "cluster_ok cluster"
  shows "\<exists>t. blast_to_graph ''sscinames'' ''qacc'' rows layout cluster = Inr t \<and>
             blastgraph blastn max_cores layout cluster [''-f'', f, ''-d'', d] fs = Inr (node_df t, edge_df t)"
proof -
  obtain t where t: "blast_to_graph ''sscinames'' ''qacc'' rows layout cluster = Inr t"
    using blast_to_graph_Inr [OF assms(6-8)] by blast
  let ?args = "\<lparr>arg_file = f, arg_db = d, arg_evalue = ''1e-80'', arg_threads = 0, arg_force = False\<rparr>"
  have "main blastn max_cores layout cluster ?args fs =
          Inr ((fs(blast_file_of (arg_file ?args) \<mapsto> Blast_out rows))
                 (''nodes.tsv'' \<mapsto> Node_csv (node_df t), ''edges.tsv'' \<mapsto> Edge_csv (edge_df t),
                  graph_file_of (arg_file ?args) \<mapsto> Pickle (node_df t) (edge_df t)))"
    by (rule main_fresh) (use assms t in \<open>simp_all add: clamp_threads_def\<close>)
  then show ?thesis
    using t parse_args_defaults [OF assms(1,2)] by (simp add: blastgraph_def app_load_def)
qed

theorem blastgraph_end_to_end_witness:
  "\<exists>t. blast_to_graph ''sscinames'' ''qacc'' demo_hits (\<lambda>g. replicate (nverts g) (0, 0)) (\<lambda>g. [[0..<nverts g]]) = Inr t \<and>
       blastgraph (\<lambda>_ _ _ _. Some demo_hits) 8 (\<lambda>g. replicate (nverts g) (0, 0)) (\<lambda>g. [[0..<nverts g]])
         [''-f'', ''reads.fasta'', ''-d'', ''nt''] Map.empty = Inr (node_df t, edge_df t)"
proof -
  obtain hs where "hit_filter ''sscinames'' ''qacc'' demo_hits = Inr hs" using demo_hits_filter by blast
  then show ?thesis
    using blastgraph_end_to_end [of "''reads.fasta''" "''nt''" Map.empty "\<lambda>_ _ _ _. Some demo_hits" 8 demo_hits
                                   hs "\<lambda>g. replicate (nverts g) (0, 0)" "\<lambda>g. [[0..<nverts g]]"] demo_params
    by simp
qed

theorem blast_command_words_witness:
  "sh_words (blast_command \<lparr>arg_file = ''reads.fasta'', arg_db = ''nt'', arg_evalue = ''1e-80'',
                              arg_threads = 0, arg_force = False\<rparr> 4) =
     Some [''blastn'', ''-query'', ''reads.fasta'', ''-db'', ''nt'', ''-out'', blast_file_of ''reads.fasta'',
           ''-evalue'', ''1e-80'', ''-max_hsps'', ''1'', ''-outfmt'', ''6 '' @ blast_columns,
           ''-num_threads'', int_str 4]"
  using blast_command_words [of "\<lparr>arg_file = ''reads.fasta'', arg_db = ''nt'', arg_evalue = ''1e-80'',
                                   arg_threads = 0, arg_force = False\<rparr>" 4]
  by (simp add: sh_plain_def is_digit_def)

end
