(* ===== verification/Tables.thy ===== *)
theory Tables
  imports Viewer
begin

text \<open>
  The tables the viewer shows: the shape of a processed component (the type invariant of
  the rows \<open>process_component\<close> adds to the node and edge tables), and the neighbour
  table of \<open>update_edge_table\<close> (app.py, lines 285--323) with its number formatting
  \<open>"{:10.3f}"\<close>, its sort on the formatted edge weight and the move of the hovered row.
  The lemmas show the table sorted and total, and that on the pipeline's tables the figure
  of every subgroup is drawn without raising, with the collapsed names one per line.
\<close>

section \<open>Shape of a processed component\<close>

definition component_ok :: "nat \<Rightarrow> graph \<Rightarrow> bool" where
  "component_ok k s \<longleftrightarrow>
     wf_graph s \<and>
     (\<forall>e\<in>set (g_es s). e_src e \<noteq> e_tgt e \<and> e_subgraph e = Some k \<and>
        v_subgraph (g_vs s ! e_src e) = Some k \<and> v_subgraph (g_vs s ! e_tgt e) = Some k) \<and>
     sorted_wrt (<) (map ekey (g_es s)) \<and>
     (\<forall>i<nverts s. v_node (g_vs s ! i) = Some i)"

section \<open>Number formatting (lines 309--310)\<close>

text \<open>
  \<open>"{:10.3f}".format(w)\<close>: the sign, the integer part in decimal, a point, three decimals
  of the value rounded half to even, right-aligned in ten characters (longer strings are
  not cut).
\<close>

definition digit :: "nat \<Rightarrow> char" where
  "digit d = char_of (48 + d)"

fun fixed_digits :: "nat \<Rightarrow> nat \<Rightarrow> string" where
  "fixed_digits k n =
     (if k = 0 then [] else digit (n div 10 ^ (k - 1) mod 10) # fixed_digits (k - 1) (n mod 10 ^ (k - 1)))"

declare fixed_digits.simps [simp del]

fun ndigits :: "nat \<Rightarrow> nat" where
  "ndigits n = (if n < 10 then 1 else Suc (ndigits (n div 10)))"

declare ndigits.simps [simp del]

definition round_half_even :: "real \<Rightarrow> int" where
  "round_half_even x =
     (let f = \<lfloor>x\<rfloor>; d = x - of_int f in
      if d < 1 / 2 then f else if 1 / 2 < d then f + 1 else if even f then f else f + 1)"

definition format_f3 :: "real \<Rightarrow> string" where
  "format_f3 x =
     (let m = nat (round_half_even (\<bar>x\<bar> * 1000));
          s = (if x < 0 then ''-'' else []) @ nat_str (m div 1000) @ CHR ''.'' # fixed_digits 3 (m mod 1000)
      in replicate (10 - length s) CHR '' '' @ s)"

section \<open>The neighbour table (lines 285--323)\<close>

text \<open>A row of the table: the dict of lines 306--311.\<close>

record edge_record =
  rec_id :: nat
  rec_name :: string
  rec_node_weight :: string
  rec_edge_weight :: string

text \<open>
  \<open>sorted(records, key = k, reverse=True)\<close>: a stable sort in descending order of the
  key; Python keeps equal keys in their original order, which is the stable ascending sort
  of the reversed list, reversed.
\<close>

definition sort_desc :: "('a \<Rightarrow> 'k::linorder) \<Rightarrow> 'a list \<Rightarrow> 'a list" where
  "sort_desc f xs = rev (sort_key f (rev xs))"

text \<open>
  Lines 298--311 for one neighbour (point index, edge id, node id): \<open>edge_subdf.loc[edge_id]\<close>
  looks the edge up by its label in \<open>edge_df\<close> (\<open>KeyError\<close> when the subgraph has no such
  row), \<open>node_subdf.iloc[node_row, :]\<close> takes the row by position (\<open>IndexError\<close>).
\<close>

definition neighbour_record :: "vertex list \<Rightarrow> edge list \<Rightarrow> int \<Rightarrow> nat \<times> nat \<times> nat \<Rightarrow> py_error + edge_record" where
  "neighbour_record nodes edges k =
     (\<lambda>(row, eid, nid).
        case map_of (edge_subdf edges k) eid of
          None \<Rightarrow> Inl KeyError
        | Some e \<Rightarrow>
            (let ns = node_subdf nodes k in
             if row < length ns then
               Inr \<lparr>rec_id = nid, rec_name = collapse_names (v_name (ns ! row)) ''\<newline>'',
                    rec_node_weight = format_f3 (of_nat (v_weight (ns ! row))),
                    rec_edge_weight = format_f3 (e_weight e)\<rparr>
             else Inl IndexError))"

text \<open>
  \<open>update_edge_table\<close>: without a current node the table is empty; otherwise the records
  of the neighbours sorted by the formatted edge weight, descending, and the hovered node's
  record moved to the top with its three cells selected.
\<close>

definition update_edge_table ::
  "vertex list \<Rightarrow> edge list \<Rightarrow> graph_data \<Rightarrow> py_error + edge_record list \<times> (nat \<times> nat) list" where
  "update_edge_table nodes edges d =
     (if gd_current d = None then Inr ([], [])
      else
        (case map_err (neighbour_record nodes edges (gd_subgraph d)) (gd_neighbors d) of
           Inl err \<Rightarrow> Inl err
         | Inr records \<Rightarrow>
             (let records = sort_desc rec_edge_weight records in
              case gd_hover d of
                None \<Rightarrow> Inr (records, [])
              | Some (_, h) \<Rightarrow>
                  if list_ex (\<lambda>r. h = Some (rec_id r)) records
                  then Inr (move_to_front (\<lambda>r. h = Some (rec_id r)) records, map (\<lambda>i. (0, i)) [0..<3])
                  else Inr (records, []))))"

text \<open>Example: two edges of subgraph 0 between the rows of \<open>demo_nodes\<close>.\<close>

abbreviation demo_edges2 :: "edge list" where
  "demo_edges2 \<equiv> [\<lparr>e_src = 0, e_tgt = 2, e_weight = 1.5, e_subgraph = Some 0, e_community = Some 0\<rparr>,
                   \<lparr>e_src = 2, e_tgt = 0, e_weight = 12.25, e_subgraph = Some 0, e_community = Some 0\<rparr>]"

abbreviation demo_data2 :: graph_data where
  "demo_data2 \<equiv> \<lparr>gd_subgraph = 0, gd_trigger = Click_trigger, gd_current = Some (0, Some 0),
                   gd_neighbors = [(1, 0, 2), (1, 1, 2)], gd_hover = None\<rparr>"

section \<open>Lemmas: number formatting\<close>

lemma replicate_if: "replicate n x = (if n = 0 then [] else x # replicate (n - 1) x)"
  by (cases n) simp_all
lemma fixed_digits_Suc:
  "fixed_digits (Suc k) n = digit (n div 10 ^ k mod 10) # fixed_digits k (n mod 10 ^ k)"
  by (simp add: fixed_digits.simps)

lemma fixed_digits_0 [simp]: "fixed_digits 0 n = []"
  by (simp add: fixed_digits.simps)

lemma length_fixed_digits [simp]: "length (fixed_digits k n) = k"
  by (induction k arbitrary: n) (simp_all add: fixed_digits_Suc)

lemma of_char_digit: "d < 10 \<Longrightarrow> of_char (digit d) = 48 + d"
  by (simp add: digit_def)

lemma fixed_digits_snoc:
  "fixed_digits (Suc k) n = fixed_digits k (n div 10) @ [digit (n mod 10)]"
proof (induction k arbitrary: n)
  case 0
  then show ?case by (simp add: fixed_digits_Suc)
next
  case (Suc k)
  have "n mod 10 ^ Suc k div 10 = n div 10 mod 10 ^ k"
    by (simp only: power_Suc mod_mult2_eq)
  moreover have "n mod 10 ^ Suc k mod 10 = n mod 10"
    by (simp add: mod_mod_cancel)
  moreover have "n div 10 ^ Suc k = n div 10 div 10 ^ k"
    by (simp add: div_mult2_eq)
  ultimately show ?case
    using Suc.IH [of "n mod 10 ^ Suc k"] by (simp add: fixed_digits_Suc [of "Suc k"] fixed_digits_Suc [of k])
qed

lemma nat_str_fixed: "nat_str n = fixed_digits (ndigits n) n"
proof (induction n rule: nat_str.induct)
  case (1 n)
  show ?case
  proof (cases "n < 10")
    case True
    then show ?thesis by (simp add: nat_str.simps ndigits.simps fixed_digits_Suc [of 0, simplified] digit_def)
  next
    case False
    with "1.IH" show ?thesis
      by (simp add: nat_str.simps [of n] ndigits.simps [of n] fixed_digits_snoc digit_def)
  qed
qed

lemmas format_eval = format_f3_def Let_def round_half_even_def nat_str_fixed ndigits.simps digit_def fixed_digits.simps replicate_if less_char_def

lemma digit_less: "a < 10 \<Longrightarrow> b < 10 \<Longrightarrow> digit a < digit b \<longleftrightarrow> a < b"
  by (simp add: less_char_def of_char_digit)

lemma digit_eq: "a < 10 \<Longrightarrow> b < 10 \<Longrightarrow> digit a = digit b \<longleftrightarrow> a = b"
  by (metis add_left_cancel of_char_digit)

lemma space_less_digit: "d < 10 \<Longrightarrow> CHR '' '' < digit d"
  by (simp add: less_char_def of_char_digit)

lemma less_div_mod:
  fixes n m b :: nat
  assumes "0 < b"
  shows "n < m \<longleftrightarrow> n div b < m div b \<or> n div b = m div b \<and> n mod b < m mod b"
proof -
  have n: "n = b * (n div b) + n mod b" and m: "m = b * (m div b) + m mod b" by simp_all
  show ?thesis
  proof
    assume "n < m"
    then have "n div b \<le> m div b" by (simp add: div_le_mono)
    moreover have "n mod b < m mod b" if "n div b = m div b"
    proof -
      from that have "b * (n div b) = b * (m div b)" by simp
      with \<open>n < m\<close> n m show ?thesis by linarith
    qed
    ultimately show "n div b < m div b \<or> n div b = m div b \<and> n mod b < m mod b" by linarith
  next
    assume "n div b < m div b \<or> n div b = m div b \<and> n mod b < m mod b"
    then show "n < m"
    proof
      assume "n div b < m div b"
      then show "n < m" by (meson div_le_mono not_le)
    next
      assume eq: "n div b = m div b \<and> n mod b < m mod b"
      then have "b * (n div b) = b * (m div b)" by simp
      with eq n m show "n < m" by linarith
    qed
  qed
qed

lemma fixed_digits_less:
  "n < 10 ^ k \<Longrightarrow> m < 10 ^ k \<Longrightarrow> fixed_digits k n < fixed_digits k m \<longleftrightarrow> n < m"
proof (induction k arbitrary: n m)
  case 0
  then show ?case by simp
next
  case (Suc k)
  have q: "n div 10 ^ k < 10" "m div 10 ^ k < 10"
    using Suc.prems by (simp_all add: less_mult_imp_div_less mult.commute)
  have r: "n mod 10 ^ k < 10 ^ k" "m mod 10 ^ k < 10 ^ k" by simp_all
  show ?case
    using q r Suc.IH [OF r] less_div_mod [of "10 ^ k" n m]
    by (simp add: fixed_digits_Suc digit_less digit_eq)
qed

lemma ndigits_pos: "0 < ndigits n"
  by (subst ndigits.simps) simp

lemma ndigits_bound: "n < 10 ^ ndigits n"
proof (induction n rule: ndigits.induct)
  case (1 n)
  then show ?case by (subst ndigits.simps) (auto simp: less_mult_imp_div_less)
qed

lemma ndigits_lower: "1 < ndigits n \<Longrightarrow> 10 ^ (ndigits n - 1) \<le> n"
proof (induction n rule: ndigits.induct)
  case (1 n)
  show ?case
  proof (cases "n < 10")
    case True
    with "1.prems" show ?thesis by (simp add: ndigits.simps)
  next
    case False
    then have d: "ndigits n = Suc (ndigits (n div 10))" by (simp add: ndigits.simps)
    have "10 ^ (ndigits (n div 10) - 1) \<le> n div 10"
    proof (cases "1 < ndigits (n div 10)")
      case True
      with "1.IH" False show ?thesis by simp
    next
      case False
      with ndigits_pos [of "n div 10"] have "ndigits (n div 10) = 1" by linarith
      with \<open>\<not> n < 10\<close> show ?thesis by simp
    qed
    then have "10 * 10 ^ (ndigits (n div 10) - 1) \<le> n" by linarith
    then show ?thesis using d ndigits_pos [of "n div 10"] by (simp add: power_Suc [symmetric])
  qed
qed

lemma ndigits_le:
  assumes "n < 10 ^ k" and "0 < k"
  shows "ndigits n \<le> k"
proof (rule ccontr)
  assume "\<not> ndigits n \<le> k"
  then have "1 < ndigits n" and "k \<le> ndigits n - 1" using assms(2) by linarith+
  then have "(10::nat) ^ k \<le> 10 ^ (ndigits n - 1)" and "10 ^ (ndigits n - 1) \<le> n"
    using ndigits_lower by (simp_all add: power_increasing)
  with assms(1) show False by linarith
qed

lemma append_less_same_length:
  "length xs = length ys \<Longrightarrow> xs @ us < ys @ vs \<longleftrightarrow> xs < ys \<or> xs = ys \<and> us < vs"
  for xs ys :: "'a::linorder list"
proof (induction xs arbitrary: ys)
  case Nil
  then show ?case by simp
next
  case (Cons x xs)
  then obtain y ys' where "ys = y # ys'" by (cases ys) auto
  with Cons show ?case by auto
qed

lemma padded_shorter_less:
  assumes "ndigits q < ndigits q'" and "ndigits q' \<le> k"
  shows "replicate (k - ndigits q) CHR '' '' @ nat_str q < replicate (k - ndigits q') CHR '' '' @ nat_str q'"
proof -
  let ?a = "ndigits q" and ?b = "ndigits q'"
  have "k - ?a = (k - ?b) + Suc (?b - ?a - 1)" using assms by linarith
  then have l: "replicate (k - ?a) CHR '' '' @ nat_str q =
      replicate (k - ?b) CHR '' '' @ (CHR '' '' # replicate (?b - ?a - 1) CHR '' '' @ nat_str q)"
    by (simp only: replicate_add replicate_Suc append_assoc append_Cons)
  have "?b = Suc (?b - 1)" using ndigits_pos [of q'] by linarith
  then have r: "nat_str q' = digit (q' div 10 ^ (?b - 1) mod 10) # fixed_digits (?b - 1) (q' mod 10 ^ (?b - 1))"
    by (metis nat_str_fixed fixed_digits_Suc)
  show ?thesis
    unfolding l r by (simp add: append_less_same_length space_less_digit)
qed

lemma padded_less:
  assumes "q < 10 ^ k" and "q' < 10 ^ k" and "0 < k"
  shows "replicate (k - ndigits q) CHR '' '' @ nat_str q < replicate (k - ndigits q') CHR '' '' @ nat_str q'
           \<longleftrightarrow> q < q'"
proof -
  have a: "ndigits q \<le> k" and b: "ndigits q' \<le> k" using assms ndigits_le by auto
  have num: "q < q'" if "ndigits q < ndigits q'" for q q' :: nat
  proof -
    have "q < 10 ^ ndigits q" by (rule ndigits_bound)
    also have "\<dots> \<le> 10 ^ (ndigits q' - 1)" using that by (simp add: power_increasing)
    also have "\<dots> \<le> q'" using that ndigits_pos [of q] by (intro ndigits_lower) linarith
    finally show ?thesis .
  qed
  consider "ndigits q = ndigits q'" | "ndigits q < ndigits q'" | "ndigits q' < ndigits q" by linarith
  then show ?thesis
  proof cases
    case 1
    then show ?thesis
      by (simp add: append_less_same_length nat_str_fixed fixed_digits_less ndigits_bound)
         (metis fixed_digits_less ndigits_bound)
  next
    case 2
    with padded_shorter_less [OF 2 b] num show ?thesis by simp
  next
    case 3
    with padded_shorter_less [OF 3 a] num [OF 3] show ?thesis
      using order.asym by auto
  qed
qed

lemma padded_eq:
  assumes "q < 10 ^ k" and "q' < 10 ^ k" and "0 < k"
  shows "replicate (k - ndigits q) CHR '' '' @ nat_str q = replicate (k - ndigits q') CHR '' '' @ nat_str q'
           \<longleftrightarrow> q = q'"
  using padded_less [OF assms] padded_less [OF assms(2,1,3)] by (metis less_irrefl linorder_neq_iff)

lemma round_half_even_bounds: "\<lfloor>x\<rfloor> \<le> round_half_even x \<and> round_half_even x \<le> \<lfloor>x\<rfloor> + 1"
  by (simp add: round_half_even_def Let_def)

lemma round_half_even_mono:
  assumes "x \<le> y"
  shows "round_half_even x \<le> round_half_even y"
proof (cases "\<lfloor>x\<rfloor> = \<lfloor>y\<rfloor>")
  case True
  with assms show ?thesis by (auto simp: round_half_even_def Let_def)
next
  case False
  with floor_mono [OF assms] have "\<lfloor>x\<rfloor> + 1 \<le> \<lfloor>y\<rfloor>" by linarith
  with round_half_even_bounds [of x] round_half_even_bounds [of y] show ?thesis by linarith
qed

lemma format_f3_nonneg:
  assumes "0 \<le> x"
  shows "format_f3 x =
           (let m = nat (round_half_even (x * 1000)) in
            replicate (6 - ndigits (m div 1000)) CHR '' '' @ nat_str (m div 1000) @
            CHR ''.'' # fixed_digits 3 (m mod 1000))"
  using assms by (simp add: format_f3_def Let_def nat_str_fixed)

lemma thousandths_bound:
  assumes "0 \<le> x" and "x * 1000 < 999999999"
  shows "0 \<le> round_half_even (x * 1000) \<and> nat (round_half_even (x * 1000)) div 1000 < 10 ^ 6"
proof -
  have "0 \<le> \<lfloor>x * 1000\<rfloor>" and "\<lfloor>x * 1000\<rfloor> < 999999999" using assms by simp_all
  with round_half_even_bounds [of "x * 1000"]
  have "0 \<le> round_half_even (x * 1000)" and "round_half_even (x * 1000) < 1000000000" by linarith+
  then show ?thesis by (simp add: nat_less_iff)
qed

lemma format_f3_less_iff:
  assumes "0 \<le> x" and "0 \<le> y" and "x * 1000 < 999999999" and "y * 1000 < 999999999"
  shows "format_f3 x < format_f3 y \<longleftrightarrow> round_half_even (x * 1000) < round_half_even (y * 1000)"
proof -
  define mx my where "mx = nat (round_half_even (x * 1000))" and "my = nat (round_half_even (y * 1000))"
  from thousandths_bound [OF assms(1,3)] thousandths_bound [OF assms(2,4)]
  have b: "mx div 1000 < 10 ^ 6" "my div 1000 < 10 ^ 6"
    and nn: "0 \<le> round_half_even (x * 1000)" "0 \<le> round_half_even (y * 1000)"
    by (simp_all add: mx_def my_def)
  have len: "length (replicate (6 - ndigits (n div 1000)) CHR '' '' @ nat_str (n div 1000)) = 6"
    if "n div 1000 < 10 ^ 6" for n
    using ndigits_le [OF that] by (simp add: nat_str_fixed)
  let ?P = "\<lambda>n. replicate (6 - ndigits (n div 1000)) CHR '' '' @ nat_str (n div 1000)"
  have fx: "format_f3 x = ?P mx @ CHR ''.'' # fixed_digits 3 (mx mod 1000)"
    using format_f3_nonneg [OF assms(1)] by (simp add: mx_def Let_def)
  have fy: "format_f3 y = ?P my @ CHR ''.'' # fixed_digits 3 (my mod 1000)"
    using format_f3_nonneg [OF assms(2)] by (simp add: my_def Let_def)
  have "length (?P mx) = length (?P my)" using len [OF b(1)] len [OF b(2)] by simp
  then have "format_f3 x < format_f3 y \<longleftrightarrow>
          ?P mx < ?P my \<or> ?P mx = ?P my \<and> fixed_digits 3 (mx mod 1000) < fixed_digits 3 (my mod 1000)"
    unfolding fx fy by (simp only: append_less_same_length Cons_less_Cons) simp
  also have "\<dots> \<longleftrightarrow>
          mx div 1000 < my div 1000 \<or> mx div 1000 = my div 1000 \<and> mx mod 1000 < my mod 1000"
    using b by (simp add: padded_less padded_eq fixed_digits_less)
  also have "\<dots> \<longleftrightarrow> mx < my" by (simp add: less_div_mod [symmetric])
  also have "\<dots> \<longleftrightarrow> round_half_even (x * 1000) < round_half_even (y * 1000)"
    using nn by (auto simp: mx_def my_def)
  finally show ?thesis .
qed

section \<open>Lemmas: sorting and the neighbour table\<close>

lemma insort_key_map: "insort_key f (g x) (map g ys) = map g (insort_key (f \<circ> g) x ys)"
  by (induction ys) auto

lemma sort_key_map: "sort_key f (map g xs) = map g (sort_key (f \<circ> g) xs)"
  by (induction xs) (simp_all add: insort_key_map comp_def)

lemma map_sort_desc: "map g (sort_desc (f \<circ> g) xs) = sort_desc f (map g xs)"
  by (simp add: sort_desc_def sort_key_map rev_map)

lemma mset_sort_desc [simp]: "mset (sort_desc f xs) = mset xs"
  by (simp add: sort_desc_def)

lemma sort_desc_sorted: "sorted_wrt (\<lambda>a b. f b \<le> f a) (sort_desc f xs)"
proof -
  have "sorted_wrt (\<lambda>a b. f a \<le> f b) (sort_key f (rev xs))"
    using sorted_sort_key [of f "rev xs"] by (simp add: sorted_map)
  then show ?thesis by (simp add: sort_desc_def sorted_wrt_rev)
qed

lemma sort_desc_stable: "filter (\<lambda>y. f y = k) (sort_desc f xs) = filter (\<lambda>y. f y = k) xs"
  by (simp add: sort_desc_def rev_filter [symmetric] sort_key_stable)

lemma neighbour_record_Inr:
  assumes "neighbour_record nodes edges k (row, eid, nid) = Inr r"
  shows "eid < length edges \<and> rec_edge_weight r = format_f3 (e_weight (edges ! eid)) \<and> rec_id r = nid"
proof -
  from assms obtain e where e: "map_of (edge_subdf edges k) eid = Some e"
    by (auto simp: neighbour_record_def split: option.splits)
  then have "(eid, e) \<in> set (edge_subdf edges k)" by (rule map_of_SomeD)
  then have "eid < length edges \<and> e = edges ! eid" by (simp add: edge_subdf_iff)
  with assms e show ?thesis by (auto simp: neighbour_record_def Let_def split: if_splits)
qed

lemma neighbour_records_weights:
  assumes "map_err (neighbour_record nodes edges k) ns = Inr recs"
  shows "map rec_edge_weight recs = map (\<lambda>(row, eid, nid). format_f3 (e_weight (edges ! eid))) ns \<and>
         (\<forall>(row, eid, nid)\<in>set ns. eid < length edges)"
proof -
  from map_err_Inr [OF assms] have l: "length recs = length ns"
    and f: "\<forall>i<length ns. neighbour_record nodes edges k (ns ! i) = Inr (recs ! i)" by auto
  have w: "rec_edge_weight (recs ! i) = (\<lambda>(row, eid, nid). format_f3 (e_weight (edges ! eid))) (ns ! i) \<and>
           (\<lambda>(row, eid, nid). eid < length edges) (ns ! i)" if "i < length ns" for i
    using f that neighbour_record_Inr [of nodes edges k] by (cases "ns ! i") fastforce
  show ?thesis
  proof
    show "map rec_edge_weight recs = map (\<lambda>(row, eid, nid). format_f3 (e_weight (edges ! eid))) ns"
      using l w by (simp add: list_eq_iff_nth_eq)
    show "\<forall>(row, eid, nid)\<in>set ns. eid < length edges"
      using w by (metis (no_types, lifting) case_prodI2 in_set_conv_nth)
  qed
qed

lemma neighbour_record_total:
  assumes "row < length (node_subdf nodes k)" and "(eid, e) \<in> set (edge_subdf edges k)"
  shows "\<exists>r. neighbour_record nodes edges k (row, eid, nid) = Inr r"
proof -
  from assms(2) have "map_of (edge_subdf edges k) eid \<noteq> None"
    by (metis map_of_eq_None_iff fst_conv image_eqI)
  with assms(1) show ?thesis by (auto simp: neighbour_record_def Let_def)
qed

lemma adjacent_rows_edge:
  "(row, eid, nid) \<in> set (adjacent_rows ns es cid) \<Longrightarrow> \<exists>e. (eid, e) \<in> set es"
  by (auto simp: adjacent_rows_def Let_def)

lemma update_edge_table_records:
  assumes "update_edge_table nodes edges d = Inr (rs, cells)" and "gd_current d \<noteq> None" and "gd_hover d = None"
  shows "\<exists>recs. map_err (neighbour_record nodes edges (gd_subgraph d)) (gd_neighbors d) = Inr recs \<and>
           rs = sort_desc rec_edge_weight recs"
  using assms by (auto simp: update_edge_table_def Let_def split: sum.splits)

text \<open>
  C17. The neighbour table is sorted by edge weight: when a node is selected and none is
  hovered, the edge-weight column is the formatted weights of the neighbours' edges, each
  once, in descending order of the weight rounded to thousandths, provided every edge
  weight lies in [0, 999999.999).
\<close>

theorem update_edge_table_sorted:
  assumes "update_edge_table nodes edges d = Inr (rs, cells)"
    and "gd_current d \<noteq> None" and "gd_hover d = None"
    and "\<forall>e\<in>set edges. 0 \<le> e_weight e \<and> e_weight e * 1000 < 999999999"
  shows "\<exists>ws. map rec_edge_weight rs = map format_f3 ws \<and>
           mset ws = mset (map (\<lambda>(row, eid, nid). e_weight (edges ! eid)) (gd_neighbors d)) \<and>
           sorted_wrt (\<lambda>w w'. round_half_even (w' * 1000) \<le> round_half_even (w * 1000)) ws"
proof -
  let ?ws0 = "map (\<lambda>(row, eid, nid). e_weight (edges ! eid)) (gd_neighbors d)"
  obtain recs where recs: "map_err (neighbour_record nodes edges (gd_subgraph d)) (gd_neighbors d) = Inr recs"
    and rs: "rs = sort_desc rec_edge_weight recs"
    using update_edge_table_records [OF assms(1-3)] by blast
  note w = neighbour_records_weights [OF recs]
  have m: "map rec_edge_weight recs = map format_f3 ?ws0"
    using w by (simp add: case_prod_beta)
  have "map rec_edge_weight rs = sort_desc id (map format_f3 ?ws0)"
    unfolding rs m [symmetric] by (simp add: map_sort_desc [of rec_edge_weight id, simplified])
  also have "\<dots> = map format_f3 (sort_desc format_f3 ?ws0)"
    by (simp add: map_sort_desc [of format_f3 id, simplified])
  finally have fmt: "map rec_edge_weight rs = map format_f3 (sort_desc format_f3 ?ws0)" .
  have range: "0 \<le> w \<and> w * 1000 < 999999999" if "w \<in> set (sort_desc format_f3 ?ws0)" for w
  proof -
    have "w \<in> set ?ws0" using that by (metis mset_sort_desc set_mset_mset)
    then obtain row eid nid where "(row, eid, nid) \<in> set (gd_neighbors d)" and "w = e_weight (edges ! eid)"
      by auto
    with w have "edges ! eid \<in> set edges" and "w = e_weight (edges ! eid)" by auto
    with assms(4) show ?thesis by blast
  qed
  have "sorted_wrt (\<lambda>w w'. round_half_even (w' * 1000) \<le> round_half_even (w * 1000)) (sort_desc format_f3 ?ws0)"
  proof (rule sorted_wrt_mono_rel [OF _ sort_desc_sorted])
    fix a b assume a: "a \<in> set (sort_desc format_f3 ?ws0)" and b: "b \<in> set (sort_desc format_f3 ?ws0)"
      and le: "format_f3 b \<le> format_f3 a"
    show "round_half_even (b * 1000) \<le> round_half_even (a * 1000)"
      using format_f3_less_iff [of a b] range [OF a] range [OF b] le by (meson leD not_le)
  qed
  with fmt show ?thesis by (intro exI [of _ "sort_desc format_f3 ?ws0"]) simp
qed

text \<open>
  C15. The neighbour table of a selection never raises: on every store \<open>update_graph_data\<close>
  writes, the edge ids are labels of the subgraph's edge rows and the point indices are
  rows of its node rows, so \<open>update_edge_table\<close> returns a table.
\<close>

theorem update_edge_table_total:
  assumes "update_graph_data nodes edges trig idx click hover r = Inr (Some d)"
  shows "\<exists>t. update_edge_table nodes edges d = Inr t"
proof (cases "gd_current d")
  case None
  then show ?thesis by (simp add: update_edge_table_def)
next
  case (Some pc)
  then obtain p cid where pc: "gd_current d = Some (p, cid)" by (cases pc) auto
  note cur = update_graph_data_current [OF assms pc]
  have "\<exists>r. neighbour_record nodes edges (gd_subgraph d) x = Inr r" if "x \<in> set (gd_neighbors d)" for x
  proof -
    obtain row eid nid where x: "x = (row, eid, nid)" by (cases x) auto
    with that cur have "(row, eid, nid) \<in> set (adjacent_rows (node_subdf nodes (gd_subgraph d))
                                         (edge_subdf edges (gd_subgraph d)) cid)" by simp
    with adjacent_rows_rows adjacent_rows_edge obtain e where
      "row < length (node_subdf nodes (gd_subgraph d))" "(eid, e) \<in> set (edge_subdf edges (gd_subgraph d))"
      by blast
    then show ?thesis unfolding x by (rule neighbour_record_total)
  qed
  then obtain recs where "map_err (neighbour_record nodes edges (gd_subgraph d)) (gd_neighbors d) = Inr recs"
    using map_err_succeeds by blast
  with pc show ?thesis
    by (auto simp: update_edge_table_def Let_def split: option.split prod.split)
qed

lemma component_ok_intro:
  assumes "\<forall>e\<in>set (g_es s). e_subgraph e = Some k \<and>
             e_src e < nverts s \<and> v_subgraph (g_vs s ! e_src e) = Some k \<and>
             e_tgt e < nverts s \<and> v_subgraph (g_vs s ! e_tgt e) = Some k"
    and "\<forall>e\<in>set (g_es s). e_src e \<noteq> e_tgt e" and "sorted_wrt (<) (map ekey (g_es s))"
    and "\<forall>i<nverts s. v_node (g_vs s ! i) = Some i"
  shows "component_ok k s"
  using assms by (auto simp: component_ok_def wf_graph_def)

lemma process_component_simplified:
  assumes "process_component layout cluster g k c = Inr s"
  shows "\<exists>s4. g_es s = g_es (simplify s4)"
  using assms by (auto simp: process_component_def Let_def node_index_def split: sum.splits)

text \<open>
  C16. Type of a processed component: the graph \<open>process_component\<close> returns for subgraph
  \<open>k\<close> is well formed (edge ends are vertices), has no loops, has its edges sorted by
  endpoint pair without repetition, carries the tag \<open>k\<close> on every edge and on both ends of
  every edge, and numbers its vertices by position (the \<open>node\<close> column).
\<close>

theorem process_component_wf:
  assumes "process_component layout cluster g k c = Inr s"
  shows "component_ok k s"
proof (rule component_ok_intro [OF process_component_edges(1) [OF assms] _ _ process_component_edges(2) [OF assms]])
  obtain s4 where es: "g_es s = g_es (simplify s4)" using process_component_simplified [OF assms] by blast
  show "\<forall>e\<in>set (g_es s). e_src e \<noteq> e_tgt e" unfolding es using simplify_no_loops by blast
  show "sorted_wrt (<) (map ekey (g_es s))" unfolding es by (simp add: simplify_keys)
qed

theorem process_component_wf_witness:
  "\<exists>s. process_component (\<lambda>g. replicate (nverts g) (0, 0)) (\<lambda>g. [[0..<nverts g]]) tri_pendant 0 [0, 1, 2, 3] = Inr s \<and>
       component_ok 0 s"
proof -
  have "case process_component (\<lambda>g. replicate (nverts g) (0, 0)) (\<lambda>g. [[0..<nverts g]]) tri_pendant 0 [0, 1, 2, 3] of
          Inl err \<Rightarrow> False | Inr s \<Rightarrow> True"
    by code_simp
  then obtain s where s: "process_component (\<lambda>g. replicate (nverts g) (0, 0)) (\<lambda>g. [[0..<nverts g]]) tri_pendant 0 [0, 1, 2, 3] = Inr s"
    by (auto split: sum.splits)
  with process_component_wf [OF s] show ?thesis by blast
qed

text \<open>
  C18. The string sort of the table agrees with the numbers: for weights in
  [0, 999999.999), one formatted weight is below another exactly when its value rounded to
  thousandths is; from 10^6 on the integer part outgrows the ten characters and the order
  breaks (\<open>format_f3_misorders_millions\<close>).
\<close>

theorem format_f3_order:
  assumes "0 \<le> x" and "0 \<le> y" and "x * 1000 < 999999999" and "y * 1000 < 999999999"
  shows "format_f3 x < format_f3 y \<longleftrightarrow> round_half_even (x * 1000) < round_half_even (y * 1000)"
  using assms by (rule format_f3_less_iff)

theorem format_f3_order_witness:
  "format_f3 2.5 < format_f3 12.25 \<and> round_half_even (2.5 * 1000) < round_half_even (12.25 * 1000)"
proof -
  have "round_half_even (2.5 * 1000) < round_half_even (12.25 * 1000)"
    by (simp add: round_half_even_def)
  with format_f3_order [of "2.5" "12.25"] show ?thesis by simp
qed

theorem format_f3_misorders_millions:
  "999999 < (1000000::real) \<and> format_f3 1000000 < format_f3 999999"
  by (simp add: format_eval)

theorem update_edge_table_sorted_witness:
  "\<exists>rs cells. update_edge_table demo_nodes demo_edges2 demo_data2 = Inr (rs, cells) \<and>
     (\<exists>ws. map rec_edge_weight rs = map format_f3 ws \<and> mset ws = mset [1.5, 12.25] \<and>
        sorted_wrt (\<lambda>w w'. round_half_even (w' * 1000) \<le> round_half_even (w * 1000)) ws)"
proof -
  have "\<exists>t. update_edge_table demo_nodes demo_edges2 demo_data2 = Inr t"
    by (simp add: update_edge_table_def neighbour_record_def node_subdf_def edge_subdf_def)
  then obtain rs cells where run: "update_edge_table demo_nodes demo_edges2 demo_data2 = Inr (rs, cells)"
    by auto
  have "\<exists>ws. map rec_edge_weight rs = map format_f3 ws \<and>
          mset ws = mset (map (\<lambda>(row, eid, nid). e_weight (demo_edges2 ! eid)) (gd_neighbors demo_data2)) \<and>
          sorted_wrt (\<lambda>w w'. round_half_even (w' * 1000) \<le> round_half_even (w * 1000)) ws"
    by (rule update_edge_table_sorted [OF run]) simp_all
  with run show ?thesis by simp
qed

theorem update_edge_table_total_witness:
  "\<exists>t. update_edge_table demo_nodes demo_edges
         \<lparr>gd_subgraph = 0, gd_trigger = Click_trigger, gd_current = Some (0, Some 0),
          gd_neighbors = [(1, 0, 2)], gd_hover = None\<rparr> = Inr t"
proof -
  have run: "update_graph_data demo_nodes demo_edges Click_trigger 1 0 (-1) 0 =
     Inr (Some \<lparr>gd_subgraph = 0, gd_trigger = Click_trigger, gd_current = Some (0, Some 0),
                gd_neighbors = [(1, 0, 2)], gd_hover = None\<rparr>)"
    by (simp add: update_graph_data_def node_subdf_def edge_subdf_def adjacent_rows_def)
  show ?thesis by (rule update_edge_table_total [OF run])
qed

section \<open>Lemmas: the hover text of the node trace\<close>

lemma py_replace_char_Cons:
  "py_replace [c] new (d # cs) = (if d = c then new @ py_replace [c] new cs else d # py_replace [c] new cs)"
  by simp

lemma py_replace_char_append:
  "py_replace [c] new (xs @ ys) = py_replace [c] new xs @ py_replace [c] new ys"
  by (induction xs) (simp_all only: append_Cons append_Nil py_replace_char_Cons, simp_all)

lemma py_replace_char_absent: "c \<notin> set xs \<Longrightarrow> py_replace [c] new xs = xs"
  by (induction xs) (auto simp: py_replace_char_Cons)

lemma py_replace_join:
  "\<forall>x\<in>set xs. c \<notin> set x \<Longrightarrow> py_replace [c] new (join_str [c] xs) = join_str new xs"
  by (induction "[c]" xs rule: join_str.induct)
     (simp_all add: py_replace_char_append py_replace_char_absent)

lemma py_split_chars: "x \<in> set (py_split c s) \<Longrightarrow> set x \<subseteq> set s \<and> c \<notin> set x"
proof (induction c s arbitrary: x rule: py_split.induct)
  case (2 sep c cs)
  obtain w ws where split: "py_split sep cs = w # ws"
    using py_split_nonempty by (metis neq_Nil_conv)
  show ?case
  proof (cases "c = sep")
    case True
    with 2 show ?thesis by auto
  next
    case False
    with "2.prems" split have "x = c # w \<or> x \<in> set ws" by auto
    with "2.IH"(2) [OF False] split False show ?thesis by fastforce
  qed
qed simp

lemma name_list_no_comma: "n \<in> set (name_list s) \<Longrightarrow> CHR '','' \<notin> set n"
  by (simp add: name_list_def) (meson py_split_chars)

lemma genus_entry_chars:
  "set (fst (genus_entry n)) \<subseteq> set n \<and> set (snd (genus_entry n)) \<subseteq> insert CHR '' '' (set n)"
proof -
  obtain w ws where split: "py_split (CHR '' '') n = w # ws"
    using py_split_nonempty by (metis neq_Nil_conv)
  have "set w \<subseteq> set n" using py_split_chars [of w "CHR '' ''" n] split by simp
  moreover have "set (join_str '' '' ws) \<subseteq> insert CHR '' '' (set n)"
  proof -
    have "\<forall>x\<in>set ws. set x \<subseteq> set n"
      using py_split_chars [of _ "CHR '' ''" n] split by (metis list.set_intros(2))
    with set_join_str [of "'' ''" ws] show ?thesis by auto
  qed
  ultimately show ?thesis by (simp add: genus_entry_def split)
qed

lemma collapse_list_no_comma: "x \<in> set (collapse_list s) \<Longrightarrow> CHR '','' \<notin> set x"
proof -
  assume "x \<in> set (collapse_list s)"
  then obtain k g where kg: "(k, g) \<in> set (genus_groups (name_list s))" and x: "x \<in> set (render_group (k, g))"
    by (auto simp: collapse_list_def)
  from kg obtain n where n: "n \<in> set (name_list s)" "k = fst (genus_entry n)"
    and g0: "g = map (snd \<circ> genus_entry) (filter (\<lambda>u. fst (genus_entry u) = k) (name_list s))"
    by (auto simp: genus_groups_ref groups_ref_def first_keys_def)
  have g: "set g \<subseteq> (snd \<circ> genus_entry) ` set (name_list s)" using g0 by auto
  have nk: "CHR '','' \<notin> set k"
    using genus_entry_chars [of n] name_list_no_comma [OF n(1)] n(2) by blast
  have ng: "CHR '','' \<notin> set i" if "i \<in> set g" for i
  proof -
    from g that obtain n' where n': "n' \<in> set (name_list s)" "i = snd (genus_entry n')" by auto
    then show ?thesis using genus_entry_chars [of n'] name_list_no_comma [OF n'(1)] by auto
  qed
  have nn: "CHR '','' \<notin> set (nat_str m)" for m
    using nat_str_digits [of "CHR '',''" m] by auto
  from x nk ng nn show ?thesis by (auto simp: render_group_def split: if_splits)
qed

lemma node_trace_text:
  "i < length ns \<Longrightarrow> nm_text (node_trace ns ! i) = join_str ''<br />'' (collapse_list (v_name (ns ! i)))"
  using py_replace_join [of "collapse_list (v_name (ns ! i))" "CHR '',''" "''<br />''"] collapse_list_no_comma
  by (simp add: node_trace_def collapse_names_def)

text \<open>
  C22. The viewer draws every subgroup: on rows the hit filter accepts, \<open>plot_subgraph\<close>
  never raises on the tables the pipeline writes, whatever subgroup is shown; it gives one
  marker per node row, whose hover text lists the collapsed names one per line.
\<close>

theorem plot_subgraph_total:
  assumes "hit_filter node_col edge_col rows = Inr hs" and "layout_ok layout" and "cluster_ok cluster"
  shows "\<exists>t. blast_to_graph node_col edge_col rows layout cluster = Inr t \<and>
           (\<forall>k. \<exists>tr ms. plot_subgraph (node_subdf (node_df t) k) (edge_subdf (edge_df t) k) = Inr (tr, ms) \<and>
              length ms = length (node_subdf (node_df t) k) \<and>
              (\<forall>i<length ms. nm_text (ms ! i) = join_str ''<br />'' (collapse_list (v_name (node_subdf (node_df t) k ! i)))))"
proof -
  obtain t where t: "blast_to_graph node_col edge_col rows layout cluster = Inr t"
    and tr: "\<forall>k. \<exists>tr. edge_traces (node_subdf (node_df t) k) (edge_subdf (edge_df t) k) = Inr tr"
    using viewer_edges_drawable [OF assms] by blast
  have "\<exists>tr ms. plot_subgraph (node_subdf (node_df t) k) (edge_subdf (edge_df t) k) = Inr (tr, ms) \<and>
          length ms = length (node_subdf (node_df t) k) \<and>
          (\<forall>i<length ms. nm_text (ms ! i) = join_str ''<br />'' (collapse_list (v_name (node_subdf (node_df t) k ! i))))"
    for k
  proof (cases "node_subdf (node_df t) k = []")
    case True
    then show ?thesis by (simp add: plot_subgraph_def)
  next
    case False
    from tr obtain es where "edge_traces (node_subdf (node_df t) k) (edge_subdf (edge_df t) k) = Inr es" by blast
    moreover have "length (node_trace (node_subdf (node_df t) k)) = length (node_subdf (node_df t) k)"
      by (simp add: node_trace_def)
    ultimately show ?thesis
      using False node_trace_text [of _ "node_subdf (node_df t) k"] by (simp add: plot_subgraph_def)
  qed
  with t show ?thesis by blast
qed

theorem plot_subgraph_total_witness:
  "\<exists>t. blast_to_graph ''qacc'' ''sacc''
       [\<lparr>qacc = Some ''q1'', sacc = Some ''t'', bitscore = 100, evalue = 0, sscinames = None\<rparr>,
        \<lparr>qacc = Some ''q2'', sacc = Some ''t'', bitscore = 95, evalue = 0, sscinames = None\<rparr>]
       (\<lambda>g. replicate (nverts g) (0, 0)) (\<lambda>g. [[0..<nverts g]]) = Inr t \<and>
     (\<forall>k. \<exists>tr ms. plot_subgraph (node_subdf (node_df t) k) (edge_subdf (edge_df t) k) = Inr (tr, ms) \<and>
        length ms = length (node_subdf (node_df t) k) \<and>
        (\<forall>i<length ms. nm_text (ms ! i) = join_str ''<br />'' (collapse_list (v_name (node_subdf (node_df t) k ! i)))))"
proof -
  have run: "hit_filter ''qacc'' ''sacc''
       [\<lparr>qacc = Some ''q1'', sacc = Some ''t'', bitscore = 100, evalue = 0, sscinames = None\<rparr>,
        \<lparr>qacc = Some ''q2'', sacc = Some ''t'', bitscore = 95, evalue = 0, sscinames = None\<rparr>]
     = Inr [\<lparr>hit_node = ''q1'', hit_edge = ''t'', hit_bitscore = 100, hit_top = 100, hit_perc = 1\<rparr>,
            \<lparr>hit_node = ''q2'', hit_edge = ''t'', hit_bitscore = 95, hit_top = 95, hit_perc = 1\<rparr>]"
    by (simp add: hit_filter_eval)
  show ?thesis
    by (rule plot_subgraph_total [OF run]) (simp_all add: layout_ok_def cluster_ok_def)
qed

end
