(* ===== verification/Spec2Isabelle.thy ===== *)
theory Spec2Isabelle
  imports Cli Tables
begin

text \<open>
  \<^bold>\<open>BLASTGraph: a verification development.\<close>

  BLASTGraph turns BLAST hits into a similarity graph of query sequences and shows it in
  a Dash viewer. \<open>src/blastgraph.py\<close> runs BLAST and calls \<open>_blast_to_graph\<close> of
  \<open>src/src/blast_to_graph.py\<close>, which filters the hits, joins the queries that share
  targets, splits the graph into weak components, lays out, clusters and contracts every
  component, and writes a node table and an edge table. \<open>src/app.py\<close> loads the two tables
  and lets the user step through the components (subgroups), click and hover nodes and
  read their neighbours; \<open>src/src/plot_graph.py\<close> draws a component and condenses the
  names of a contracted node by genus.

  \<^bold>\<open>Theories, in import order.\<close>
  \<^item> \<open>Prelude\<close>: the Python errors (\<open>py_error\<close>: \<open>KeyError\<close>, \<open>IndexError\<close>,
    \<open>ValueError\<close>, \<open>FileNotFoundError\<close>, \<open>UnpicklingError\<close>, \<open>SystemExit\<close>; a fallible operation
    returns \<open>py_error + 'a\<close>), \<open>str.join\<close>, \<open>str.replace\<close> (\<open>py_replace\<close>),
    \<open>list.index\<close>, igraph's \<open>first\<close>/\<open>mean\<close> combiners, \<open>fold_err\<close> (a loop whose body
    may raise) and \<open>map_err\<close>, with the shared lemmas on them and on sums over groups.
    Strings are \<open>string\<close> ordered code point by code point (\<open>Char_ord\<close>,
    \<open>List_Lexorder\<close>), as Python compares them; floats are \<open>real\<close>.
  \<^item> \<open>HitFilter\<close>: lines 25--35 (\<open>hit_filter\<close>): the 500-row cap, the best score per
    key, the top score per \<open>qacc\<close> group, the 0.9 threshold, the \<open>KeyError\<close> of the
    column look-ups (only the string columns are modelled as keys). Lemmas: keys unique
    and sorted, relative scores in [0.9, 1], dominated hits dropped, the error paths, a
    group of negative scores kept with relative score at least 1 (against the spec), and
    with blastgraph.py's columns the normalisation by the best score of the query.
  \<^item> \<open>Overlap\<close>: lines 38--93 (\<open>overlap_graph\<close>): the nested pair loop with its state
    (rows and per-node counters) as a record threaded through \<open>fold_err\<close>, the removal of
    isolated nodes, the merge of rows per pair, the renaming to indices. Lemmas: the
    loop with its shorter/longer swap equals a reference loop, counters are right, edges
    are exactly the pairs sharing a target with the summed mean score, no raise.
  \<^item> \<open>Graph\<close>: lines 98--122 and 165--181: igraph graphs as records of vertex and edge
    lists (unset attributes \<open>None\<close>), \<open>assemble\<close>, \<open>neighbors\<close>, weak components,
    \<open>subgraph\<close>, \<open>contract_vertices\<close>, \<open>simplify\<close>. Components are computed by a
    fixed-point search \<open>reach\<close> with fuel \<open>nverts g\<close>: each round adds a vertex or stops,
    so this fuel always reaches the fixed point (\<open>reach_fixpoint\<close>), and the lemmas show
    that the components partition the vertices and are the classes of reachability.
  \<^item> \<open>Grouping\<close>: lines 132--162: the closed neighbourhood, the group-name string, the
    insertion-ordered dict of groups and the membership list, refined to reference
    definitions (\<open>groups_ref\<close>, sorted insertion, a parser of the names: round trip).
  \<^item> \<open>Component\<close>: lines 116--181 (\<open>process_component\<close>): tag, layout, communities,
    membership, contraction, simplify, node index. Lemmas: contraction keeps the total
    weight, simplify leaves no loops or parallel edges and keeps edge weight, and every
    index below the largest membership value that no vertex maps to becomes an empty
    vertex (a concrete run of \<open>process_component\<close> shows one on a real component).
  \<^item> \<open>Pipeline\<close>: the whole of \<open>_blast_to_graph\<close> (\<open>blast_to_graph\<close>) with the loop
    over components and the concatenation of tables: it never raises on filtered input
    and the node weights add up to the number of surviving nodes.
  \<^item> \<open>Viewer\<close>: \<open>collapse_names\<close> of plot_graph.py and the callbacks of app.py:
    \<open>num_subgraphs\<close>, the navigation callback \<open>choose_subgraph\<close> as a step function
    \<open>view_step\<close> with the inductive set \<open>reachable_view\<close> of page states,
    \<open>get_point_index\<close>, \<open>update_graph_data\<close> with its triggers and \<open>IndexError\<close>
    paths, \<open>update_figure\<close> (a redraw by \<open>plot_subgraph\<close>, with its edge traces and
    node markers, or the marker recolouring), the page's initial figure, the hovered-row
    move of
    \<open>update_edge_table\<close> and \<open>update_clicked_node_info\<close>.
    Lemmas: the navigation invariant (by rule induction) and liveness, the exact error
    condition and the neighbour set of \<open>update_graph_data\<close>, the refinement, bounds and
    round trip of name collapsing, and the composition with the pipeline: the viewer
    counts exactly one subgroup per component although contraction adds rows without a
    subgraph value, and every edge row of a subgraph joins two node rows of that subgraph,
    so the endpoint look-ups of \<open>plot_subgraph\<close> (\<open>edge_traces\<close>, with its weight
    bins) never raise.
  \<^item> \<open>Tables\<close>: the type invariant \<open>component_ok\<close> of a processed component (well
    formed, loop-free, edges sorted by endpoint pair, every edge and its ends tagged with
    the subgraph, node ids equal to positions), and \<open>update_edge_table\<close> of app.py
    (lines 285--323): \<open>neighbour_record\<close> with the \<open>loc\<close>/\<open>iloc\<close> look-ups and their
    \<open>KeyError\<close>/\<open>IndexError\<close>, \<open>format_f3\<close> for \<open>"{:10.3f}"\<close> (rounding half to even,
    right-aligned in ten characters, integer part by Grouping's \<open>nat_str\<close>), the stable
    descending sort \<open>sort_desc\<close> of \<open>sorted(..., reverse=True)\<close> and the hovered-row move.
    Lemmas: the string order of formatted weights is the numeric order below 10^6 and breaks
    above it; the table is sorted by weight; the table never raises on the data
    \<open>update_graph_data\<close> stores; on the pipeline's tables every subgroup is drawn without
    raising, its hover texts listing the collapsed names one per line.
  \<^item> \<open>Files\<close>: the driver. The directory is a map \<open>fs\<close> from names to files
    (\<open>disk_file\<close>: BLAST output, node or edge CSV, the pickled pair of tables), each file
    holding the table it was written from. \<open>main\<close> of blastgraph.py (the file names from
    \<open>str.replace\<close>, the thread clamp, \<open>run_blast\<close> unless its output exists) calls
    \<open>cache_graph\<close> (\<open>blast_to_graph\<close> of blast_to_graph.py, lines 7--17, with the CSV
    writes of lines 215--216), and \<open>app_load\<close> is app.py's loading of the pickle.
    Lemmas: on a fresh directory the viewer loads exactly the pipeline's tables; the cache
    is keyed on the graph file alone; the name round trip, the thread bounds, and two
    defects (every occurrence of the extension is removed; \<open>nodes.fa\<close> has its BLAST
    output overwritten by the node table).
  \<^item> \<open>Cli\<close>: \<open>main(sys.argv[1:])\<close> of blastgraph.py as \<open>blastgraph\<close>: the argparse parser
    of lines 10--16 as CPython 3.11 runs it (\<open>parse_optional\<close> classifies a token as
    \<open>_parse_optional\<close> does: exact options, \<open>--opt=value\<close>, unique prefixes of long
    options, attached short values, negative numbers, \<open>-h\<close> clusters; \<open>parse_loop\<close>
    consumes the tokens; \<open>int()\<close> of \<open>type=int\<close> is \<open>py_int\<close>; a usage error is
    \<open>SystemExit 2\<close>, help \<open>SystemExit 0\<close>), the command string of line 36 and the
    word splitting \<open>sh -c\<close> applies to it (\<open>sh_split\<close>: blanks and double quotes),
    then \<open>Files.main\<close> and the viewer's load of the graph file. Lemmas: the argument
    list round trip (values, and the defaults), the only exits are 0 and 2 and a
    successful parse saw \<open>-f\<close> and \<open>-d\<close>, the command splits into the intended words for
    names of plain characters (and a blank in the FASTA name splits the query), and the
    run end to end on a fresh directory loads exactly the pipeline's tables.

  \<^bold>\<open>Parameters.\<close> igraph's \<open>kamada_kawai\<close> layout and \<open>community_fastgreedy\<close>
  clustering are functions passed to \<open>process_component\<close>; \<open>layout_ok\<close> and
  \<open>cluster_ok\<close> state what igraph guarantees of them (one coordinate pair per vertex,
  communities of vertex ids), and the end-to-end theorems assume only that. The
  \<open>blastn\<close> subprocess is a function from query, database, E-value and thread count to
  the rows it writes (\<open>None\<close> when it fails and writes nothing), and the number of cores
  is an argument of \<open>main\<close>.

  \<^bold>\<open>Not modelled.\<close> argparse's help and usage texts (only the exit status), the
  shell's quoting rules beyond blanks and double quotes (the theorems use names of
  characters sh takes literally), the header line that line 37 prepends with \<open>echo\<close>
  (folded into the rows \<open>blastn\<close> returns), the byte formats of the CSV, TSV and pickle files (a file holds the table it
  was written from, and \<open>read_csv\<close> is modelled only in the NA values of its rows and the
  errors of reading a file of the wrong kind), the layout and clustering algorithms
  themselves (parameters, see above), the plotly objects of \<open>plot_subgraph\<close> (styles, the
  node trace, the layout) and the Dash page layout: they compute presentation, not data
  the other parts read.
\<close>

end
